theory Spec2Isabelle
  imports Complex_Main "HOL-Library.AList"
begin

section \<open>Deployment manager: data model\<close>

text \<open>
  The development follows \<^verbatim>\<open>deployment-manager/main.py\<close>. Python dictionaries whose
  iteration order the code depends on (a traffic split, the per-variant request
  counters, the deployment registry) are association lists with distinct keys in
  insertion order; assignment to a key is \<^const>\<open>AList.update\<close> (in place for a known
  key, at the end for a new one). Dictionaries that are only looked up by key are maps.
  Python floats are modelled as rationals. The coroutines are run sequentially:
  \<^verbatim>\<open>await\<close> is a call, \<^verbatim>\<open>asyncio.sleep\<close> does nothing.
\<close>

datatype py_error = KeyError | ZeroDivisionError

datatype deployment_slot = BLUE | GREEN

datatype deployment_status = INACTIVE | STAGING | ACTIVE | TRANSITIONING | FAILED

datatype canary_status = RUNNING | COMPLETED | ABORTED | PAUSED

fun slot_value :: "deployment_slot \<Rightarrow> string" where
  "slot_value BLUE = ''blue''"
| "slot_value GREEN = ''green''"

type_synonym traffic_split = "(string \<times> int) list"

section \<open>TrafficRouter\<close>

record traffic_router =
  routing_rules :: "string \<rightharpoonup> traffic_split"
  request_counts :: "string \<rightharpoonup> (string \<times> int) list"

definition new_traffic_router :: traffic_router where
  "new_traffic_router = \<lparr>routing_rules = Map.empty, request_counts = Map.empty\<rparr>"

text \<open>The loop of \<^verbatim>\<open>update_traffic_split\<close> that gives every new variant a counter of 0.\<close>

fun init_counters :: "(string \<times> int) list \<Rightarrow> string list \<Rightarrow> (string \<times> int) list" where
  "init_counters cs [] = cs"
| "init_counters cs (variant # rest) =
     init_counters (if map_of cs variant = None then cs @ [(variant, 0)] else cs) rest"

definition update_traffic_split :: "traffic_router \<Rightarrow> string \<Rightarrow> traffic_split \<Rightarrow> traffic_router" where
  "update_traffic_split tr model_name split =
     (let cs = (case request_counts tr model_name of None \<Rightarrow> [] | Some cs \<Rightarrow> cs)
      in tr\<lparr>routing_rules := (routing_rules tr)(model_name \<mapsto> split),
            request_counts := (request_counts tr)(model_name \<mapsto> init_counters cs (map fst split))\<rparr>)"

text \<open>
  The \<^verbatim>\<open>for variant, weight in routing_rule.items()\<close> loop of \<^verbatim>\<open>route_request\<close>: the
  first variant whose cumulative weight reaches the draw, or \<open>None\<close> when the loop runs
  to its end.
\<close>

fun select_variant :: "traffic_split \<Rightarrow> int \<Rightarrow> int \<Rightarrow> string option" where
  "select_variant [] random_value cumulative_weight = None"
| "select_variant ((variant, weight) # rest) random_value cumulative_weight =
     (if random_value \<le> cumulative_weight + weight then Some variant
      else select_variant rest random_value (cumulative_weight + weight))"

text \<open>
  \<^verbatim>\<open>route_request\<close>, with the draw of \<^verbatim>\<open>random.randint(1, 100)\<close> as a parameter.
  \<^verbatim>\<open>self.request_counts[model_name][variant] += 1\<close> raises KeyError when the counter
  is missing.
\<close>

definition route_request :: "traffic_router \<Rightarrow> string \<Rightarrow> int \<Rightarrow> py_error + (string \<times> traffic_router)" where
  "route_request tr model_name random_value =
     (case routing_rules tr model_name of
        None \<Rightarrow> Inr (''default'', tr)
      | Some routing_rule \<Rightarrow>
          if routing_rule = [] then Inr (''default'', tr)
          else (case select_variant routing_rule random_value 0 of
                  Some variant \<Rightarrow>
                    (case request_counts tr model_name of
                       None \<Rightarrow> Inl KeyError
                     | Some cs \<Rightarrow>
                         (case map_of cs variant of
                            None \<Rightarrow> Inl KeyError
                          | Some c \<Rightarrow>
                              Inr (variant,
                                   tr\<lparr>request_counts :=
                                        (request_counts tr)(model_name \<mapsto> AList.update variant (c + 1) cs)\<rparr>)))
                | None \<Rightarrow> Inr (fst (hd routing_rule), tr)))"

text \<open>A run of \<^verbatim>\<open>route_request\<close> calls, one per draw; the first error ends it.\<close>

fun route_requests :: "traffic_router \<Rightarrow> string \<Rightarrow> int list \<Rightarrow> py_error + (string list \<times> traffic_router)" where
  "route_requests tr model_name [] = Inr ([], tr)"
| "route_requests tr model_name (r # rs) =
     (case route_request tr model_name r of
        Inl e \<Rightarrow> Inl e
      | Inr (v, tr') \<Rightarrow>
          (case route_requests tr' model_name rs of
             Inl e \<Rightarrow> Inl e
           | Inr (vs, tr'') \<Rightarrow> Inr (v # vs, tr'')))"

datatype traffic_stats =
    No_stats
  | Total_only int
  | Distribution int "(string \<times> int \<times> rat) list"

definition get_traffic_stats :: "traffic_router \<Rightarrow> string \<Rightarrow> traffic_stats" where
  "get_traffic_stats tr model_name =
     (case request_counts tr model_name of
        None \<Rightarrow> No_stats
      | Some cs \<Rightarrow>
          (let total_requests = sum_list (map snd cs)
           in if total_requests = 0 then Total_only 0
              else Distribution total_requests
                     (map (\<lambda>(variant, count). (variant, count, of_int count / of_int total_requests * 100)) cs)))"

fun total_requests :: "traffic_stats \<Rightarrow> int option" where
  "total_requests No_stats = None"
| "total_requests (Total_only n) = Some n"
| "total_requests (Distribution n d) = Some n"

text \<open>
  The validity of a split in the words of the specification: weights are non-negative
  and sum to exactly 100.
\<close>

definition spec_valid_split :: "traffic_split \<Rightarrow> bool" where
  "spec_valid_split split \<longleftrightarrow> list_all (\<lambda>(variant, weight). 0 \<le> weight) split \<and> sum_list (map snd split) = 100"

text \<open>
  The counters of a service are in order: a service with a split has counters, their
  keys are distinct, and every variant of the stored split has one. The fresh router
  has this property, and \<^const>\<open>update_traffic_split\<close> and \<^const>\<open>route_request\<close> keep it.
\<close>

definition counters_initialized :: "traffic_router \<Rightarrow> string \<Rightarrow> bool" where
  "counters_initialized tr model_name \<longleftrightarrow>
     (case request_counts tr model_name of
        None \<Rightarrow> routing_rules tr model_name = None
      | Some cs \<Rightarrow>
          distinct (map fst cs) \<and>
          (case routing_rules tr model_name of
             None \<Rightarrow> True
           | Some split \<Rightarrow> set (map fst split) \<subseteq> set (map fst cs)))"

text \<open>The counter of one variant, as \<^verbatim>\<open>request_counts[model_name].get(variant)\<close>.\<close>

definition counter :: "traffic_router \<Rightarrow> string \<Rightarrow> string \<Rightarrow> int option" where
  "counter tr model_name variant = (case request_counts tr model_name of None \<Rightarrow> None | Some cs \<Rightarrow> map_of cs variant)"

text \<open>Two routers used as concrete inputs below.\<close>

definition two_way :: traffic_router where
  "two_way = update_traffic_split new_traffic_router ''svc'' [(''blue'', 25), (''green'', 75)]"

definition short_split :: traffic_router where
  "short_split = update_traffic_split new_traffic_router ''svc'' [(''blue'', 25), (''green'', 50)]"

section \<open>Identifiers\<close>

text \<open>
  Python's \<^verbatim>\<open>str\<close> of an integer, for the time stamp at the end of an identifier.
\<close>

definition digit_char :: "nat \<Rightarrow> char" where
  "digit_char d = ''0123456789'' ! d"

fun str_nat :: "nat \<Rightarrow> string" where
  "str_nat n = (if n < 10 then [digit_char n] else str_nat (n div 10) @ [digit_char (n mod 10)])"

declare str_nat.simps [simp del]

definition str_int :: "int \<Rightarrow> string" where
  "str_int i = (if i < 0 then CHR ''-'' # str_nat (nat (- i)) else str_nat (nat i))"

section \<open>CanaryReleaseManager\<close>

record canary_configuration =
  canary_model_name :: string
  canary_version :: string
  baseline_version :: string
  canary_traffic_percentage :: int
  success_criteria :: "(string \<times> rat) list"
  rollout_duration_minutes :: int
  evaluation_interval_minutes :: int
  auto_promote :: bool

type_synonym metrics = "(string \<times> rat) list"

record criterion_result =
  criterion_passed :: bool
  canary_value :: rat
  baseline_value :: rat
  threshold :: rat

datatype decision = Proceed | Abort | Hold

text \<open>The three reason strings, with the rate they print.\<close>

datatype reason =
    No_reason
  | Only_passed rat
  | Proceeding rat
  | Maintaining rat

record evaluation =
  timestamp :: int
  canary_metrics :: metrics
  baseline_metrics :: metrics
  criteria_results :: "(string \<times> criterion_result) list"
  decision :: decision
  reason :: reason
  confidence :: rat

record canary_info =
  config :: canary_configuration
  start_time :: int
  canary_state :: canary_status
  evaluations :: "evaluation list"
  current_traffic_percentage :: int
  completion_time :: "int option"
  abort_time :: "int option"
  abort_reason :: "reason option"

record canary_result =
  result_config :: canary_configuration
  result_evaluations :: "evaluation list"
  final_status :: string
  result_abort_reason :: "reason option"
  duration_minutes :: rat

record canary_manager =
  canary_router :: traffic_router
  active_canaries :: "string \<rightharpoonup> canary_info"
  canary_results :: "string \<rightharpoonup> canary_result"

definition new_canary_manager :: "traffic_router \<Rightarrow> canary_manager" where
  "new_canary_manager tr = \<lparr>canary_router = tr, active_canaries = Map.empty, canary_results = Map.empty\<rparr>"

text \<open>
  \<^verbatim>\<open>_get_version_metrics\<close>. The string hash of Python differs from process to process,
  so it is a parameter; \<^verbatim>\<open>%\<close> with a positive modulus is \<open>mod\<close>.
\<close>

definition get_version_metrics :: "(string \<Rightarrow> int) \<Rightarrow> string \<Rightarrow> string \<Rightarrow> metrics" where
  "get_version_metrics hash model version =
     (let version_factor = of_int (hash version mod 100) / 1000
      in [(''error_rate'', 2 / 100 + version_factor),
          (''response_time'', 1200 + version_factor * 200),
          (''user_satisfaction'', 85 / 100 + version_factor / 10),
          (''throughput'', 100 - version_factor * 10)])"

text \<open>\<^verbatim>\<open>metrics.get(criterion, 0)\<close>.\<close>

definition metric_get :: "metrics \<Rightarrow> string \<Rightarrow> rat" where
  "metric_get m criterion = (case map_of m criterion of None \<Rightarrow> 0 | Some v \<Rightarrow> v)"

text \<open>The \<^verbatim>\<open>if\<close>/\<^verbatim>\<open>elif\<close> chain that judges one criterion.\<close>

definition judge_criterion :: "string \<Rightarrow> rat \<Rightarrow> rat \<Rightarrow> rat \<Rightarrow> bool" where
  "judge_criterion criterion thr cv bv =
     (if criterion = ''error_rate'' then cv \<le> bv * (1 + thr)
      else if criterion = ''response_time'' then cv \<le> bv * (1 + thr)
      else if criterion = ''user_satisfaction'' then cv \<ge> bv * (1 - thr)
      else \<bar>cv - bv\<bar> \<le> thr)"

text \<open>
  The loop over \<^verbatim>\<open>config.success_criteria.items()\<close>, with the dictionary of results
  and the count of passed criteria as accumulators.
\<close>

fun evaluate_criteria ::
  "(string \<times> rat) list \<Rightarrow> metrics \<Rightarrow> metrics \<Rightarrow> (string \<times> criterion_result) list \<Rightarrow> nat \<Rightarrow>
   (string \<times> criterion_result) list \<times> nat" where
  "evaluate_criteria [] cm bm results passed_criteria = (results, passed_criteria)"
| "evaluate_criteria ((criterion, thr) # rest) cm bm results passed_criteria =
     (let cv = metric_get cm criterion;
          bv = metric_get bm criterion;
          passed = judge_criterion criterion thr cv bv
      in evaluate_criteria rest cm bm
           (AList.update criterion
              \<lparr>criterion_passed = passed, canary_value = cv, baseline_value = bv, threshold = thr\<rparr> results)
           (if passed then passed_criteria + 1 else passed_criteria))"

text \<open>
  \<^verbatim>\<open>_evaluate_canary_performance\<close> on given metrics; the division raises
  ZeroDivisionError when no criterion is configured.
\<close>

definition evaluate_metrics :: "canary_configuration \<Rightarrow> metrics \<Rightarrow> metrics \<Rightarrow> int \<Rightarrow> py_error + evaluation" where
  "evaluate_metrics cfg cm bm now =
     (let total_criteria = length (success_criteria cfg);
          (results, passed_criteria) = evaluate_criteria (success_criteria cfg) cm bm [] 0
      in if total_criteria = 0 then Inl ZeroDivisionError
         else
           (let success_rate = of_nat passed_criteria / of_nat total_criteria;
                ev = \<lparr>timestamp = now, canary_metrics = cm, baseline_metrics = bm,
                      criteria_results = results, decision = Proceed, reason = No_reason,
                      confidence = success_rate\<rparr>
            in if success_rate < 7 / 10 then Inr (ev\<lparr>decision := Abort, reason := Only_passed success_rate\<rparr>)
               else if success_rate \<ge> 9 / 10 then Inr (ev\<lparr>decision := Proceed, reason := Proceeding success_rate\<rparr>)
               else Inr (ev\<lparr>decision := Hold, reason := Maintaining success_rate\<rparr>)))"

definition evaluate_canary_performance :: "(string \<Rightarrow> int) \<Rightarrow> canary_info \<Rightarrow> int \<Rightarrow> py_error + evaluation" where
  "evaluate_canary_performance hash info now =
     (let cfg = config info
      in evaluate_metrics cfg
           (get_version_metrics hash (canary_model_name cfg) (canary_version cfg))
           (get_version_metrics hash (canary_model_name cfg) (baseline_version cfg)) now)"

text \<open>
  The helpers below work on the dictionary of one release, which the monitoring loop
  holds by reference; the caller writes it back under the release's id.
\<close>

definition update_canary_traffic :: "traffic_router \<times> canary_info \<Rightarrow> int \<Rightarrow> traffic_router \<times> canary_info" where
  "update_canary_traffic s traffic_percentage =
     (case s of (tr, info) \<Rightarrow>
        (update_traffic_split tr (canary_model_name (config info))
           [(''canary'', traffic_percentage), (''baseline'', 100 - traffic_percentage)],
         info\<lparr>current_traffic_percentage := traffic_percentage\<rparr>))"

definition calculate_next_traffic_percentage :: "canary_info \<Rightarrow> int" where
  "calculate_next_traffic_percentage info =
     (let current_percentage = current_traffic_percentage info
      in if current_percentage < 5 then 5
         else if current_percentage < 10 then 10
         else if current_percentage < 25 then 25
         else if current_percentage < 50 then 50
         else if current_percentage < canary_traffic_percentage (config info)
           then min (canary_traffic_percentage (config info)) (current_percentage + 25)
         else current_percentage)"

definition complete_canary_release ::
  "traffic_router \<times> canary_info \<Rightarrow> int \<Rightarrow> (traffic_router \<times> canary_info) \<times> canary_result" where
  "complete_canary_release s now =
     (case s of (tr, info) \<Rightarrow>
        (let cfg = config info;
             tr' = (if auto_promote cfg
                    then update_traffic_split tr (canary_model_name cfg) [(''canary'', 100), (''baseline'', 0)]
                    else tr);
             info' = info\<lparr>canary_state := COMPLETED, completion_time := Some now\<rparr>
         in ((tr', info'),
             \<lparr>result_config = cfg, result_evaluations = evaluations info', final_status = ''success'',
              result_abort_reason = None, duration_minutes = of_int (now - start_time info') / 60\<rparr>)))"

definition abort_canary_release ::
  "traffic_router \<times> canary_info \<Rightarrow> reason \<Rightarrow> int \<Rightarrow> (traffic_router \<times> canary_info) \<times> canary_result" where
  "abort_canary_release s why now =
     (case s of (tr, info) \<Rightarrow>
        (let cfg = config info;
             tr' = update_traffic_split tr (canary_model_name cfg) [(''canary'', 0), (''baseline'', 100)];
             info' = info\<lparr>canary_state := ABORTED, abort_time := Some now, abort_reason := Some why\<rparr>
         in ((tr', info'),
             \<lparr>result_config = cfg, result_evaluations = evaluations info', final_status = ''aborted'',
              result_abort_reason = Some why, duration_minutes = of_int (now - start_time info') / 60\<rparr>)))"

definition canary_id_of :: "canary_configuration \<Rightarrow> int \<Rightarrow> string" where
  "canary_id_of cfg now =
     ''canary-'' @ canary_model_name cfg @ ''-'' @ canary_version cfg @ ''-'' @ str_int now"

text \<open>
  \<^verbatim>\<open>start_canary_release\<close>, with the clock reading as a parameter. It returns the new
  id and the initial percentage; the monitoring task it creates is run by
  \<open>monitor_canary_release\<close> below.
\<close>

definition start_canary_release :: "canary_manager \<Rightarrow> canary_configuration \<Rightarrow> int \<Rightarrow> (string \<times> int) \<times> canary_manager" where
  "start_canary_release mgr cfg now =
     (let canary_id = canary_id_of cfg now;
          info = \<lparr>config = cfg, start_time = now, canary_state = RUNNING, evaluations = [],
                  current_traffic_percentage = 0, completion_time = None, abort_time = None,
                  abort_reason = None\<rparr>;
          initial_traffic = min (canary_traffic_percentage cfg) 5;
          (tr', info') = update_canary_traffic (canary_router mgr, info) initial_traffic
      in ((canary_id, initial_traffic),
          mgr\<lparr>canary_router := tr', active_canaries := (active_canaries mgr)(canary_id \<mapsto> info')\<rparr>))"

text \<open>
  One pass through the \<^verbatim>\<open>while\<close> loop of \<^verbatim>\<open>_monitor_canary_release\<close>, the clock read
  once per pass. A release that is no longer running leaves the loop with nothing
  changed; an exception of the evaluation ends the task with nothing changed.
\<close>

definition monitor_cycle :: "(string \<Rightarrow> int) \<Rightarrow> canary_manager \<Rightarrow> string \<Rightarrow> int \<Rightarrow> py_error + canary_manager" where
  "monitor_cycle hash mgr canary_id now =
     (case active_canaries mgr canary_id of
        None \<Rightarrow> Inl KeyError
      | Some info \<Rightarrow>
          if canary_state info \<noteq> RUNNING then Inr mgr
          else if now - start_time info \<ge> 60 * rollout_duration_minutes (config info) then
            (case complete_canary_release (canary_router mgr, info) now of
               ((tr', info'), result) \<Rightarrow>
                 Inr (mgr\<lparr>canary_router := tr',
                          active_canaries := (active_canaries mgr)(canary_id \<mapsto> info'),
                          canary_results := (canary_results mgr)(canary_id \<mapsto> result)\<rparr>))
          else
            (case evaluate_canary_performance hash info now of
               Inl e \<Rightarrow> Inl e
             | Inr evaluation_result \<Rightarrow>
                 (let info1 = info\<lparr>evaluations := evaluations info @ [evaluation_result]\<rparr>
                  in if decision evaluation_result = Abort then
                       (case abort_canary_release (canary_router mgr, info1) (reason evaluation_result) now of
                          ((tr', info'), result) \<Rightarrow>
                            Inr (mgr\<lparr>canary_router := tr',
                                     active_canaries := (active_canaries mgr)(canary_id \<mapsto> info'),
                                     canary_results := (canary_results mgr)(canary_id \<mapsto> result)\<rparr>))
                     else if decision evaluation_result = Proceed then
                       (case update_canary_traffic (canary_router mgr, info1)
                               (calculate_next_traffic_percentage info1) of
                          (tr', info') \<Rightarrow>
                            Inr (mgr\<lparr>canary_router := tr',
                                     active_canaries := (active_canaries mgr)(canary_id \<mapsto> info')\<rparr>))
                     else Inr (mgr\<lparr>active_canaries := (active_canaries mgr)(canary_id \<mapsto> info1)\<rparr>))))"

text \<open>The loop itself, one clock reading per pass, until the readings run out.\<close>

fun monitor_canary_release :: "(string \<Rightarrow> int) \<Rightarrow> canary_manager \<Rightarrow> string \<Rightarrow> int list \<Rightarrow> py_error + canary_manager" where
  "monitor_canary_release hash mgr canary_id [] = Inr mgr"
| "monitor_canary_release hash mgr canary_id (now # later) =
     (case monitor_cycle hash mgr canary_id now of
        Inl e \<Rightarrow> Inl e
      | Inr mgr' \<Rightarrow> monitor_canary_release hash mgr' canary_id later)"

record live_status =
  live_canary_id :: string
  live_model_name :: string
  live_status :: canary_status
  live_traffic_percentage :: int
  live_start_time :: int
  evaluations_count :: nat
  latest_evaluation :: "evaluation option"

datatype status_report =
    Live live_status
  | Finalized canary_result
  | Not_found

definition get_canary_status :: "canary_manager \<Rightarrow> string \<Rightarrow> status_report" where
  "get_canary_status mgr canary_id =
     (case active_canaries mgr canary_id of
        Some info \<Rightarrow>
          Live \<lparr>live_canary_id = canary_id,
                live_model_name = canary_model_name (config info),
                live_status = canary_state info,
                live_traffic_percentage = current_traffic_percentage info,
                live_start_time = start_time info,
                evaluations_count = length (evaluations info),
                latest_evaluation = (if evaluations info = [] then None else Some (last (evaluations info)))\<rparr>
      | None \<Rightarrow>
          (case canary_results mgr canary_id of
             Some result \<Rightarrow> Finalized result
           | None \<Rightarrow> Not_found))"


text \<open>
  Concrete inputs used below: a hash under which version \<^verbatim>\<open>v2\<close> has error rate 0.021,
  \<^verbatim>\<open>v3\<close> has 0.05 and every other version the base rate 0.02; a release of model
  \<^verbatim>\<open>gpt\<close> against baseline \<^verbatim>\<open>v1\<close> lasting three minutes; and the manager right after
  \<^verbatim>\<open>start_canary_release\<close> at time 0.
\<close>

definition demo_hash :: "string \<Rightarrow> int" where
  "demo_hash v = (if v = ''v2'' then 1 else if v = ''v3'' then 30 else 0)"

definition demo_config :: "int \<Rightarrow> string \<Rightarrow> (string \<times> rat) list \<Rightarrow> canary_configuration" where
  "demo_config target candidate criteria =
     \<lparr>canary_model_name = ''gpt'', canary_version = candidate, baseline_version = ''v1'',
      canary_traffic_percentage = target, success_criteria = criteria,
      rollout_duration_minutes = 3, evaluation_interval_minutes = 1, auto_promote = True\<rparr>"

definition demo_start :: "int \<Rightarrow> string \<Rightarrow> (string \<times> rat) list \<Rightarrow> canary_manager" where
  "demo_start target candidate criteria =
     snd (start_canary_release (new_canary_manager new_traffic_router) (demo_config target candidate criteria) 0)"


definition demo_info :: "int \<Rightarrow> string \<Rightarrow> (string \<times> rat) list \<Rightarrow> canary_info" where
  "demo_info target candidate criteria =
     \<lparr>config = demo_config target candidate criteria, start_time = 0, canary_state = RUNNING,
      evaluations = [], current_traffic_percentage = min target 5, completion_time = None,
      abort_time = None, abort_reason = None\<rparr>"

definition demo_id :: "int \<Rightarrow> string \<Rightarrow> (string \<times> rat) list \<Rightarrow> string" where
  "demo_id target candidate criteria = canary_id_of (demo_config target candidate criteria) 0"

section \<open>HealthChecker\<close>

record model_deployment =
  deployment_id :: string
  model_name :: string
  model_version :: string
  slot :: deployment_slot
  status :: deployment_status
  endpoint_url :: string
  created_at :: int
  last_health_check :: "int option"
  health_status :: string
  traffic_percentage :: int
  performance_metrics :: "(string \<times> rat) list"

text \<open>
  The messages of the checks are formatted strings; each is kept as a tag with the
  values it prints. The \<^verbatim>\<open>details\<close> entry of a check result, which no caller reads,
  is left out.
\<close>

datatype message =
    Endpoint_health string
  | Endpoint_connectivity_failed string
  | Model_response_rate rat
  | Model_response_failed string
  | Performance_summary rat rat
  | Performance_failed string
  | Api_compatibility rat
  | Api_compatibility_failed string
  | Validation_rule_failed string
  | Average_above_optimal rat

record check_result =
  check_name :: string
  check_passed :: bool
  check_message :: message
  check_warnings :: "message list"

record validation_result =
  validated_id :: string
  passed :: bool
  checks :: "check_result list"
  errors :: "message list"
  warnings :: "message list"

text \<open>
  What one validation run observes. The source simulates every observation (a fixed
  health status, mock replies, sleeps timed by the clock, a fixed compatibility score);
  here each is a field, and \<open>Inl e\<close> stands for the observation raising an exception
  with text \<open>e\<close>, which the \<^verbatim>\<open>except\<close> clause of the check turns into a result.
\<close>

record health_probe =
  observed_health :: "string + string"
  model_reply :: "string \<Rightarrow> string + string"
  measured_times :: "string + (nat \<Rightarrow> rat)"
  compatibility_score :: "string + rat"
  probe_time :: int

type_synonym validation_rule = "model_deployment \<Rightarrow> (string + check_result) \<times> model_deployment"

definition validate_endpoint_connectivity :: "health_probe \<Rightarrow> validation_rule" where
  "validate_endpoint_connectivity pr deployment =
     (case observed_health pr of
        Inr health \<Rightarrow>
          (Inr \<lparr>check_name = ''endpoint_connectivity'', check_passed = (health = ''healthy''),
                check_message = Endpoint_health health, check_warnings = []\<rparr>,
           deployment\<lparr>last_health_check := Some (probe_time pr), health_status := health\<rparr>)
      | Inl e \<Rightarrow>
          (Inr \<lparr>check_name = ''endpoint_connectivity'', check_passed = False,
                check_message = Endpoint_connectivity_failed e, check_warnings = []\<rparr>,
           deployment))"

definition test_inputs :: "string list" where
  "test_inputs =
     [''Hello, how are you?'', ''What is 2+2?'',
      ''Summarize this text: The quick brown fox jumps over the lazy dog.'']"

text \<open>The characters that \<^verbatim>\<open>str.strip\<close> removes, among the ASCII ones.\<close>

definition is_space :: "char \<Rightarrow> bool" where
  "is_space c \<longleftrightarrow> c \<in> set [CHR '' '', CHR 0x09, CHR 0x0A, CHR 0x0B, CHR 0x0C, CHR 0x0D,
                               CHR 0x1C, CHR 0x1D, CHR 0x1E, CHR 0x1F]"

definition is_valid_response :: "string \<Rightarrow> bool" where
  "is_valid_response response \<longleftrightarrow> length response > 5 \<and> \<not> list_all is_space response"

text \<open>The loop over the test cases: the number of valid replies, or the first exception.\<close>

fun count_passed_tests :: "(string \<Rightarrow> string + string) \<Rightarrow> string list \<Rightarrow> nat \<Rightarrow> string + nat" where
  "count_passed_tests reply [] passed_tests = Inr passed_tests"
| "count_passed_tests reply (input # rest) passed_tests =
     (case reply input of
        Inl e \<Rightarrow> Inl e
      | Inr response \<Rightarrow>
          count_passed_tests reply rest (if is_valid_response response then passed_tests + 1 else passed_tests))"

definition validate_model_response :: "health_probe \<Rightarrow> validation_rule" where
  "validate_model_response pr deployment =
     (case count_passed_tests (model_reply pr) test_inputs 0 of
        Inr passed_tests \<Rightarrow>
          (let success_rate = of_nat passed_tests / of_nat (length test_inputs)
           in (Inr \<lparr>check_name = ''model_response_validation'', check_passed = (success_rate \<ge> 8 / 10),
                    check_message = Model_response_rate success_rate, check_warnings = []\<rparr>,
               deployment))
      | Inl e \<Rightarrow>
          (Inr \<lparr>check_name = ''model_response_validation'', check_passed = False,
                check_message = Model_response_failed e, check_warnings = []\<rparr>,
           deployment))"

definition validate_performance_metrics :: "health_probe \<Rightarrow> validation_rule" where
  "validate_performance_metrics pr deployment =
     (case measured_times pr of
        Inr timing \<Rightarrow>
          (let response_times = map timing [0..<5];
               avg_response_time = sum_list response_times / of_nat (length response_times);
               p95_response_time = sort response_times ! 4;
               warns = (if avg_response_time > 2000 then [Average_above_optimal avg_response_time] else [])
           in (Inr \<lparr>check_name = ''performance_validation'',
                    check_passed = (avg_response_time \<le> 3000 \<and> p95_response_time \<le> 5000),
                    check_message = Performance_summary avg_response_time p95_response_time,
                    check_warnings = warns\<rparr>,
               deployment\<lparr>performance_metrics :=
                 [(''avg_response_time_ms'', avg_response_time),
                  (''p95_response_time_ms'', p95_response_time),
                  (''last_updated'', of_int (probe_time pr))]\<rparr>))
      | Inl e \<Rightarrow>
          (Inr \<lparr>check_name = ''performance_validation'', check_passed = False,
                check_message = Performance_failed e, check_warnings = []\<rparr>,
           deployment))"

definition validate_api_compatibility :: "health_probe \<Rightarrow> validation_rule" where
  "validate_api_compatibility pr deployment =
     (case compatibility_score pr of
        Inr score \<Rightarrow>
          (Inr \<lparr>check_name = ''api_compatibility'', check_passed = (score \<ge> 95 / 100),
                check_message = Api_compatibility score, check_warnings = []\<rparr>,
           deployment)
      | Inl e \<Rightarrow>
          (Inr \<lparr>check_name = ''api_compatibility'', check_passed = False,
                check_message = Api_compatibility_failed e, check_warnings = []\<rparr>,
           deployment))"

definition validation_rules :: "health_probe \<Rightarrow> validation_rule list" where
  "validation_rules pr =
     [validate_endpoint_connectivity pr, validate_model_response pr,
      validate_performance_metrics pr, validate_api_compatibility pr]"

text \<open>
  The body of the \<^verbatim>\<open>try\<close> block of \<^verbatim>\<open>validate_deployment\<close> after the rule has
  returned: the result is appended, a failed one fails the report and adds its message
  to the errors, and its warnings are collected.
\<close>

definition record_check :: "check_result \<Rightarrow> validation_result \<Rightarrow> validation_result" where
  "record_check check_result vr =
     (let vr1 = vr\<lparr>checks := checks vr @ [check_result]\<rparr>;
          vr2 = (if \<not> check_passed check_result
                 then vr1\<lparr>passed := False, errors := errors vr1 @ [check_message check_result]\<rparr>
                 else vr1);
          vr3 = (if check_warnings check_result \<noteq> []
                 then vr2\<lparr>warnings := warnings vr2 @ check_warnings check_result\<rparr>
                 else vr2)
      in vr3)"

text \<open>
  The loop of \<^verbatim>\<open>validate_deployment\<close> over a list of rules. A rule that raises (\<open>Inl\<close>)
  is caught here: the report fails and gets an error message, and the loop goes on.
\<close>

fun run_rules :: "validation_rule list \<Rightarrow> model_deployment \<Rightarrow> validation_result \<Rightarrow> validation_result \<times> model_deployment" where
  "run_rules [] deployment vr = (vr, deployment)"
| "run_rules (rule # rest) deployment vr =
     (case rule deployment of
        (Inr check_result, deployment') \<Rightarrow> run_rules rest deployment' (record_check check_result vr)
      | (Inl e, deployment') \<Rightarrow>
          run_rules rest deployment'
            (vr\<lparr>passed := False, errors := errors vr @ [Validation_rule_failed e]\<rparr>))"

definition validate_deployment :: "health_probe \<Rightarrow> model_deployment \<Rightarrow> validation_result \<times> model_deployment" where
  "validate_deployment pr deployment =
     run_rules (validation_rules pr) deployment
       \<lparr>validated_id = deployment_id deployment, passed = True, checks = [], errors = [], warnings = []\<rparr>"

text \<open>The observations as the source simulates them, for five given clock timings.\<close>

definition mock_reply :: "string \<Rightarrow> string + string" where
  "mock_reply input =
     (if input = ''Hello, how are you?'' then Inr ''Hello! I'm doing well, thank you for asking.''
      else if input = ''What is 2+2?'' then Inr ''2+2 equals 4.''
      else if input = ''Summarize this text: The quick brown fox jumps over the lazy dog.''
        then Inr ''A fox jumps over a dog.''
      else Inr (''I understand you asked: '' @ input))"

definition simulated_probe :: "(nat \<Rightarrow> rat) \<Rightarrow> int \<Rightarrow> health_probe" where
  "simulated_probe timings now =
     \<lparr>observed_health = Inr ''healthy'', model_reply = mock_reply, measured_times = Inr timings,
      compatibility_score = Inr 1, probe_time = now\<rparr>"

section \<open>BlueGreenDeploymentManager\<close>

record blue_green =
  bg_router :: traffic_router
  deployments :: "(string \<times> model_deployment) list"
  active_slots :: "string \<rightharpoonup> deployment_slot"

definition new_blue_green :: "traffic_router \<Rightarrow> blue_green" where
  "new_blue_green tr = \<lparr>bg_router = tr, deployments = [], active_slots = Map.empty\<rparr>"

definition get_opposite_slot :: "deployment_slot \<Rightarrow> deployment_slot" where
  "get_opposite_slot s = (if s = BLUE then GREEN else BLUE)"

definition deployment_id_of :: "string \<Rightarrow> string \<Rightarrow> deployment_slot \<Rightarrow> int \<Rightarrow> string" where
  "deployment_id_of model version s now =
     model @ ''-'' @ version @ ''-'' @ slot_value s @ ''-'' @ str_int now"

datatype alert = High_error_rate rat | High_response_time rat

record monitoring_result =
  healthy :: bool
  monitored_error_rate :: rat
  monitored_response_time_ms :: rat
  monitored_traffic_percentage :: int
  alerts :: "alert list"

text \<open>
  \<^verbatim>\<open>_monitor_traffic_shift\<close>. The source simulates the two live metrics by the literals
  0.02 and 1200; here they are arguments, and \<open>simulated_health\<close> gives the literals.
\<close>

definition monitor_traffic_shift :: "rat \<times> rat \<Rightarrow> int \<Rightarrow> monitoring_result" where
  "monitor_traffic_shift live step =
     (case live of (error_rate, avg_response_time) \<Rightarrow>
        (let m0 = \<lparr>healthy = True, monitored_error_rate = error_rate,
                   monitored_response_time_ms = avg_response_time,
                   monitored_traffic_percentage = step, alerts = []\<rparr>;
             m1 = (if error_rate > 5 / 100
                   then m0\<lparr>healthy := False, alerts := alerts m0 @ [High_error_rate error_rate]\<rparr>
                   else m0);
             m2 = (if avg_response_time > 5000
                   then m1\<lparr>healthy := False, alerts := alerts m1 @ [High_response_time avg_response_time]\<rparr>
                   else m1)
         in m2))"

definition simulated_health :: "int \<Rightarrow> rat \<times> rat" where
  "simulated_health step = (2 / 100, 1200)"

definition traffic_steps :: "int list" where
  "traffic_steps = [10, 25, 50, 75, 100]"

text \<open>
  The loop of \<^verbatim>\<open>_gradual_traffic_shift\<close>: the router after the last split applied, and
  the monitoring result of the step that was not healthy, if there was one.
\<close>

fun gradual_traffic_shift ::
  "(int \<Rightarrow> rat \<times> rat) \<Rightarrow> traffic_router \<Rightarrow> string \<Rightarrow> deployment_slot \<Rightarrow> int list \<Rightarrow>
   traffic_router \<times> monitoring_result option" where
  "gradual_traffic_shift live tr model new_slot [] = (tr, None)"
| "gradual_traffic_shift live tr model new_slot (step # later) =
     (let tr' = update_traffic_split tr model
                  [(slot_value new_slot, step), (slot_value (get_opposite_slot new_slot), 100 - step)];
          monitoring = monitor_traffic_shift (live step) step
      in if \<not> healthy monitoring then (tr', Some monitoring)
         else gradual_traffic_shift live tr' model new_slot later)"

text \<open>
  What \<^verbatim>\<open>_complete_blue_green_switch\<close> and \<^verbatim>\<open>rollback_deployment\<close> do to one
  deployment of the slot they retire.
\<close>

definition retire :: "string \<Rightarrow> deployment_slot \<Rightarrow> model_deployment \<Rightarrow> model_deployment" where
  "retire model s d =
     (if model_name d = model \<and> slot d = s then d\<lparr>status := INACTIVE, traffic_percentage := 0\<rparr> else d)"

definition mark_inactive :: "string \<Rightarrow> deployment_slot \<Rightarrow> (string \<times> model_deployment) list \<Rightarrow> (string \<times> model_deployment) list" where
  "mark_inactive model s ds =
     map (\<lambda>(k, d). (k, retire model s d)) ds"

definition complete_blue_green_switch :: "blue_green \<Rightarrow> string \<Rightarrow> deployment_slot \<Rightarrow> blue_green" where
  "complete_blue_green_switch bg model new_active_slot =
     (let old_slot = active_slots bg model;
          tr = update_traffic_split (bg_router bg) model
                 [(slot_value new_active_slot, 100), (slot_value (get_opposite_slot new_active_slot), 0)]
      in bg\<lparr>bg_router := tr,
            deployments := (case old_slot of
                              None \<Rightarrow> deployments bg
                            | Some s \<Rightarrow> mark_inactive model s (deployments bg)),
            active_slots := (active_slots bg)(model \<mapsto> new_active_slot)\<rparr>)"

datatype rollback_result =
    Rolled_back string string
  | No_active_deployment
  | No_previous_deployment

text \<open>
  \<^verbatim>\<open>rollback_deployment\<close>. The search takes the first match in the order of the
  registry. Nothing in the \<^verbatim>\<open>try\<close> block raises, so its handler has no branch here.
\<close>

definition rollback_deployment :: "blue_green \<Rightarrow> string \<Rightarrow> rollback_result \<times> blue_green" where
  "rollback_deployment bg model =
     (case active_slots bg model of
        None \<Rightarrow> (No_active_deployment, bg)
      | Some current_slot \<Rightarrow>
          (let previous_slot = get_opposite_slot current_slot
           in case find (\<lambda>(k, d). model_name d = model \<and> slot d = previous_slot \<and> status d = INACTIVE)
                     (deployments bg) of
                None \<Rightarrow> (No_previous_deployment, bg)
              | Some (k, previous_deployment) \<Rightarrow>
                  (let tr = update_traffic_split (bg_router bg) model
                              [(slot_value previous_slot, 100), (slot_value current_slot, 0)];
                       ds = AList.map_entry k (\<lambda>d. d\<lparr>status := ACTIVE, traffic_percentage := 100\<rparr>)
                              (deployments bg)
                   in (Rolled_back (deployment_id previous_deployment) (slot_value previous_slot),
                       bg\<lparr>bg_router := tr,
                          deployments := mark_inactive model current_slot ds,
                          active_slots := (active_slots bg)(model \<mapsto> previous_slot)\<rparr>))))"

definition set_status :: "string \<Rightarrow> deployment_status \<Rightarrow> blue_green \<Rightarrow> blue_green" where
  "set_status k st bg = bg\<lparr>deployments := AList.map_entry k (\<lambda>d. d\<lparr>status := st\<rparr>) (deployments bg)\<rparr>"

text \<open>
  What one call of \<^verbatim>\<open>deploy_new_version\<close> meets: the clock, the provisioning of
  \<^verbatim>\<open>_deploy_to_azure\<close> (\<open>Some e\<close> when it raises), the observations of the validation
  and the live metrics at each step of the traffic shift.
\<close>

record deploy_env =
  clock :: int
  provisioning :: "string option"
  probe :: health_probe
  live_metrics :: "int \<Rightarrow> rat \<times> rat"

datatype deploy_result =
    Deployed string string string
  | Validation_failed validation_result
  | Traffic_shift_failed monitoring_result
  | Deployment_failed string

text \<open>
  \<^verbatim>\<open>deploy_new_version\<close>. The only exception that reaches the outer handler is one of
  the provisioning, raised before the deployment is registered; the handler then marks
  as failed whatever the registry holds under the same id.
\<close>

definition target_slot :: "blue_green \<Rightarrow> string \<Rightarrow> deployment_slot" where
  "target_slot bg model =
     (let current_active_slot = (case active_slots bg model of None \<Rightarrow> BLUE | Some s \<Rightarrow> s)
      in if current_active_slot = BLUE then GREEN else BLUE)"

text \<open>The new deployment as \<^verbatim>\<open>_deploy_to_azure\<close> leaves it, with its final endpoint.\<close>

definition staged_deployment :: "string \<Rightarrow> string \<Rightarrow> deployment_slot \<Rightarrow> int \<Rightarrow> model_deployment" where
  "staged_deployment model version new_slot now =
     \<lparr>deployment_id = deployment_id_of model version new_slot now, model_name = model,
      model_version = version, slot = new_slot, status = STAGING,
      endpoint_url = ''https://'' @ model @ ''-'' @ slot_value new_slot @ ''.cognitiveservices.azure.com'',
      created_at = now, last_health_check = None, health_status = ''unknown'',
      traffic_percentage = 0, performance_metrics = []\<rparr>"

definition deploy_new_version :: "deploy_env \<Rightarrow> blue_green \<Rightarrow> string \<Rightarrow> string \<Rightarrow> deploy_result \<times> blue_green" where
  "deploy_new_version env bg model version =
     (let new_slot = target_slot bg model;
          did = deployment_id_of model version new_slot (clock env)
      in case provisioning env of
           Some e \<Rightarrow> (Deployment_failed e, set_status did FAILED bg)
         | None \<Rightarrow>
             (let (validation, deployment') =
                    validate_deployment (probe env) (staged_deployment model version new_slot (clock env));
                  bg1 = bg\<lparr>deployments := AList.update did deployment' (deployments bg)\<rparr>
              in if \<not> passed validation then (Validation_failed validation, set_status did FAILED bg1)
                 else
                   (case gradual_traffic_shift (live_metrics env) (bg_router bg1) model new_slot traffic_steps of
                      (tr, Some monitoring) \<Rightarrow>
                        (Traffic_shift_failed monitoring,
                         snd (rollback_deployment (set_status did FAILED (bg1\<lparr>bg_router := tr\<rparr>)) model))
                    | (tr, None) \<Rightarrow>
                        (Deployed did (slot_value new_slot) (endpoint_url deployment'),
                         set_status did ACTIVE (complete_blue_green_switch (bg1\<lparr>bg_router := tr\<rparr>) model new_slot)))))"

text \<open>
  The states of the manager: the fresh one, and every state that a call of
  \<^verbatim>\<open>deploy_new_version\<close> or \<^verbatim>\<open>rollback_deployment\<close> leaves behind.
\<close>

inductive reachable :: "blue_green \<Rightarrow> bool" where
  fresh: "reachable (new_blue_green tr)"
| deploy: "reachable bg \<Longrightarrow> reachable (snd (deploy_new_version env bg model version))"
| rollback: "reachable bg \<Longrightarrow> reachable (snd (rollback_deployment bg model))"

text \<open>The deployments of a service that the registry lists as active.\<close>

definition active_deployments :: "blue_green \<Rightarrow> string \<Rightarrow> (string \<times> model_deployment) list" where
  "active_deployments bg model = filter (\<lambda>(k, d). model_name d = model \<and> status d = ACTIVE) (deployments bg)"

text \<open>
  Concrete inputs used below: an environment in which everything is as the source
  simulates it (each timed call takes 100 ms), one in which the live error rate during
  the traffic shift is 8 percent, and the manager after one to four successful
  deployments of model \<^verbatim>\<open>gpt\<close>.
\<close>

definition ok_env :: "int \<Rightarrow> deploy_env" where
  "ok_env now =
     \<lparr>clock = now, provisioning = None, probe = simulated_probe (\<lambda>i. 100) now,
      live_metrics = simulated_health\<rparr>"


definition after_v1 :: blue_green where
  "after_v1 = snd (deploy_new_version (ok_env 1) (new_blue_green new_traffic_router) ''gpt'' ''v1'')"

definition after_v2 :: blue_green where
  "after_v2 = snd (deploy_new_version (ok_env 2) after_v1 ''gpt'' ''v2'')"

definition after_v3 :: blue_green where
  "after_v3 = snd (deploy_new_version (ok_env 3) after_v2 ''gpt'' ''v3'')"

definition after_v4 :: blue_green where
  "after_v4 = snd (deploy_new_version (ok_env 4) after_v3 ''gpt'' ''v4'')"

definition registry_view :: "blue_green \<Rightarrow> (string \<times> deployment_slot \<times> deployment_status \<times> int) list" where
  "registry_view bg = map (\<lambda>(k, d). (k, slot d, status d, traffic_percentage d)) (deployments bg)"

text \<open>
  The letter in front of the time stamp of an identifier, which is the last letter of
  the slot's name: it tells the identifiers of the two slots apart.
\<close>

definition is_digit :: "char \<Rightarrow> bool" where
  "is_digit c \<longleftrightarrow> c \<in> set ''0123456789''"

definition id_slot_letter :: "string \<Rightarrow> char option" where
  "id_slot_letter k =
     (case dropWhile (\<lambda>c. c = CHR ''-'') (dropWhile is_digit (rev k)) of
        [] \<Rightarrow> None
      | c # rest \<Rightarrow> Some c)"

text \<open>
  The registry is well formed: its keys are distinct, every key carries the letter of
  its deployment's slot, and an active deployment sits in the slot that the manager
  has as the active one of its service.
\<close>

definition entry_ok :: "(string \<rightharpoonup> deployment_slot) \<Rightarrow> string \<Rightarrow> model_deployment \<Rightarrow> bool" where
  "entry_ok act k d \<longleftrightarrow>
     id_slot_letter k = Some (last (slot_value (slot d))) \<and>
     (status d = ACTIVE \<longrightarrow> act (model_name d) = Some (slot d))"

definition registry_ok :: "blue_green \<Rightarrow> bool" where
  "registry_ok bg \<longleftrightarrow>
     distinct (map fst (deployments bg)) \<and>
     (\<forall>k d. map_of (deployments bg) k = Some d \<longrightarrow> entry_ok (active_slots bg) k d)"

text \<open>A probe whose performance measurement raises, all else as simulated.\<close>

definition timeout_probe :: health_probe where
  "timeout_probe = (simulated_probe (\<lambda>i. 100) 7)\<lparr>measured_times := Inl ''timed out''\<rparr>"

definition staged :: model_deployment where
  "staged =
     \<lparr>deployment_id = ''gpt-v1-green-7'', model_name = ''gpt'', model_version = ''v1'', slot = GREEN,
      status = STAGING, endpoint_url = ''https://gpt-green.cognitiveservices.azure.com'',
      created_at = 7, last_health_check = None, health_status = ''unknown'',
      traffic_percentage = 0, performance_metrics = []\<rparr>"

text \<open>What a validation leaves alone in the deployment it checks.\<close>

definition same_identity :: "model_deployment \<Rightarrow> model_deployment \<Rightarrow> bool" where
  "same_identity d d' \<longleftrightarrow>
     deployment_id d' = deployment_id d \<and> model_name d' = model_name d \<and> slot d' = slot d \<and>
     status d' = status d \<and> traffic_percentage d' = traffic_percentage d \<and> endpoint_url d' = endpoint_url d"

text \<open>
  A report is consistent when it passes exactly if no recorded check failed, and its
  errors are the messages of the failed checks, in order.
\<close>

definition report_consistent :: "validation_result \<Rightarrow> bool" where
  "report_consistent vr \<longleftrightarrow>
     (passed vr \<longleftrightarrow> list_all check_passed (checks vr)) \<and>
     errors vr = map check_message (filter (\<lambda>c. \<not> check_passed c) (checks vr))"

section \<open>Properties of the traffic router\<close>

lemma init_counters_keys:
  "set (map fst (init_counters cs vs)) = set (map fst cs) \<union> set vs"
  by (induction cs vs rule: init_counters.induct) (auto simp: map_of_eq_None_iff image_iff)

lemma init_counters_distinct:
  "distinct (map fst cs) \<Longrightarrow> distinct (map fst (init_counters cs vs))"
  by (induction cs vs rule: init_counters.induct) (auto simp: map_of_eq_None_iff)

lemma init_counters_sum:
  "sum_list (map snd (init_counters cs vs)) = sum_list (map snd cs)"
  by (induction cs vs rule: init_counters.induct) auto

lemma select_variant_found:
  "r \<le> cum + sum_list (map snd sp) \<Longrightarrow> sp \<noteq> [] \<Longrightarrow> \<exists>v. select_variant sp r cum = Some v \<and> v \<in> set (map fst sp)"
proof (induction sp r cum rule: select_variant.induct)
  case (1 r cum)
  then show ?case by simp
next
  case (2 variant weight rest r cum)
  show ?case
  proof (cases "r \<le> cum + weight")
    case True
    then show ?thesis by simp
  next
    case False
    with 2(2) have "rest \<noteq> []" by (cases rest) auto
    with 2 False show ?thesis by (auto simp: add.assoc)
  qed
qed

lemma select_variant_none:
  "list_all (\<lambda>(variant, weight). 0 \<le> weight) sp \<Longrightarrow> cum + sum_list (map snd sp) < r \<Longrightarrow> select_variant sp r cum = None"
proof (induction sp r cum rule: select_variant.induct)
  case (1 r cum)
  then show ?case by simp
next
  case (2 variant weight rest r cum)
  from 2(2) have nn: "0 \<le> weight" "list_all (\<lambda>(variant, weight). 0 \<le> weight) rest" by auto
  then have "0 \<le> sum_list (map snd rest)" by (induction rest) auto
  with 2(3) have "\<not> r \<le> cum + weight" by simp
  with 2 nn show ?case by (simp add: add.assoc)
qed

lemma sum_update_counter:
  "map_of cs v = Some c \<Longrightarrow> sum_list (map snd (AList.update v (c + 1) cs)) = sum_list (map snd cs) + (1::int)"
  by (induction cs) (auto split: if_splits)

lemma counters_initialized_fresh: "counters_initialized new_traffic_router m"
  by (simp add: counters_initialized_def new_traffic_router_def)

lemma counters_initialized_update:
  assumes "counters_initialized tr m'"
  shows "counters_initialized (update_traffic_split tr m sp) m'"
proof (cases "m' = m")
  case False
  with assms show ?thesis
    by (auto simp: counters_initialized_def update_traffic_split_def Let_def split: option.splits)
next
  case True
  from assms True have "distinct (map fst (case request_counts tr m of None \<Rightarrow> [] | Some cs \<Rightarrow> cs))"
    by (simp add: counters_initialized_def split: option.splits)
  with True show ?thesis
    by (simp add: counters_initialized_def update_traffic_split_def Let_def init_counters_keys
        init_counters_distinct del: set_map)
qed

lemma route_request_step:
  assumes rule: "routing_rules tr m = Some split"
    and init: "counters_initialized tr m"
    and tot: "sum_list (map snd split) = 100"
    and r: "1 \<le> r" "r \<le> 100"
  shows "\<exists>v c cs. request_counts tr m = Some cs \<and> map_of cs v = Some c \<and> v \<in> set (map fst split) \<and>
           route_request tr m r =
             Inr (v, tr\<lparr>request_counts := (request_counts tr)(m \<mapsto> AList.update v (c + 1) cs)\<rparr>)"
proof -
  from tot have ne: "split \<noteq> []" by auto
  from r tot have "r \<le> 0 + sum_list (map snd split)" by simp
  from select_variant_found[OF this ne] obtain v where
    v: "select_variant split r 0 = Some v" "v \<in> set (map fst split)" by blast
  from init rule obtain cs where cs: "request_counts tr m = Some cs"
    and cov: "set (map fst split) \<subseteq> set (map fst cs)"
    by (auto simp: counters_initialized_def split: option.splits)
  from cov v(2) have "v \<in> fst ` set cs" by auto
  then obtain c where c: "map_of cs v = Some c"
    by (cases "map_of cs v") (auto simp: map_of_eq_None_iff)
  show ?thesis using rule ne v cs c by (auto simp: route_request_def)
qed

lemma route_request_cases:
  assumes "route_request tr m r = Inr (v, tr')"
  shows "tr' = tr \<or> (\<exists>cs c. request_counts tr m = Some cs \<and> map_of cs v = Some c \<and>
            tr' = tr\<lparr>request_counts := (request_counts tr)(m \<mapsto> AList.update v (c + 1) cs)\<rparr>)"
proof (cases "routing_rules tr m")
  case None
  with assms show ?thesis by (simp add: route_request_def)
next
  case (Some rule)
  show ?thesis
  proof (cases "rule = []")
    case True
    with Some assms show ?thesis by (simp add: route_request_def)
  next
    case False
    show ?thesis
    proof (cases "select_variant rule r 0")
      case None
      with Some False assms show ?thesis by (simp add: route_request_def)
    next
      case (Some w)
      with \<open>routing_rules tr m = Some rule\<close> False assms show ?thesis
        by (auto simp: route_request_def split: option.splits)
    qed
  qed
qed

lemma counters_initialized_bump:
  assumes init: "counters_initialized tr m" and cs: "request_counts tr m = Some cs"
  shows "counters_initialized (tr\<lparr>request_counts := (request_counts tr)(m \<mapsto> AList.update v c' cs)\<rparr>) m"
proof -
  from init cs have d: "distinct (map fst cs)"
    by (simp add: counters_initialized_def)
  have k: "set (map fst (AList.update v c' cs)) = {v} \<union> set (map fst cs)"
    using dom_update[of v c' cs] by simp
  have d': "distinct (map fst (AList.update v c' cs))"
    using d by (simp add: distinct_update)
  show ?thesis
  proof (cases "routing_rules tr m")
    case None
    with d' show ?thesis by (simp add: counters_initialized_def)
  next
    case (Some split)
    with init cs have "set (map fst split) \<subseteq> set (map fst cs)"
      by (simp add: counters_initialized_def)
    with k have "set (map fst split) \<subseteq> set (map fst (AList.update v c' cs))" by blast
    with Some d' show ?thesis by (simp add: counters_initialized_def del: set_map)
  qed
qed

lemma route_request_keeps:
  assumes "route_request tr m r = Inr (v, tr')"
  shows "routing_rules tr' = routing_rules tr" and "counters_initialized tr m \<Longrightarrow> counters_initialized tr' m"
  using route_request_cases[OF assms] counters_initialized_bump[of tr m] by auto

lemma route_requests_total:
  assumes "routing_rules tr m = Some split" "counters_initialized tr m"
    "sum_list (map snd split) = 100" "list_all (\<lambda>r. 1 \<le> r \<and> r \<le> 100) draws"
  shows "\<exists>vs tr' cs cs'. route_requests tr m draws = Inr (vs, tr') \<and> length vs = length draws \<and>
           list_all (\<lambda>v. v \<in> set (map fst split)) vs \<and>
           request_counts tr m = Some cs \<and> request_counts tr' m = Some cs' \<and>
           sum_list (map snd cs') = sum_list (map snd cs) + int (length draws)"
  using assms
proof (induction draws arbitrary: tr)
  case Nil
  then show ?case by (auto simp: counters_initialized_def split: option.splits)
next
  case (Cons r rs)
  from Cons.prems have r: "1 \<le> r" "r \<le> 100" and rs: "list_all (\<lambda>r. 1 \<le> r \<and> r \<le> 100) rs" by auto
  from route_request_step[OF Cons.prems(1,2,3) r] obtain v c cs where
    s: "request_counts tr m = Some cs" "map_of cs v = Some c" "v \<in> set (map fst split)"
       "route_request tr m r = Inr (v, tr\<lparr>request_counts := (request_counts tr)(m \<mapsto> AList.update v (c + 1) cs)\<rparr>)"
    by blast
  let ?tr1 = "tr\<lparr>request_counts := (request_counts tr)(m \<mapsto> AList.update v (c + 1) cs)\<rparr>"
  have k: "routing_rules ?tr1 m = Some split" "counters_initialized ?tr1 m"
    using route_request_keeps[OF s(4)] Cons.prems(1,2) by auto
  from Cons.IH[OF k Cons.prems(3) rs] obtain vs tr' cs' where
    t: "route_requests ?tr1 m rs = Inr (vs, tr')" "length vs = length rs"
       "list_all (\<lambda>v. v \<in> set (map fst split)) vs" "request_counts tr' m = Some cs'"
       "sum_list (map snd cs') = sum_list (map snd (AList.update v (c + 1) cs)) + int (length rs)"
    by auto
  have "route_requests tr m (r # rs) = Inr (v # vs, tr')"
    by (simp add: s(4) t(1))
  moreover have "sum_list (map snd cs') = sum_list (map snd cs) + int (length (r # rs))"
    using t(5) sum_update_counter[OF s(2)] by simp
  ultimately show ?case using s(1,3) t(2,3,4) by simp
qed

lemma route_request_fallback:
  assumes "routing_rules tr m = Some split" "split \<noteq> []"
    "list_all (\<lambda>(variant, weight). 0 \<le> weight) split" "sum_list (map snd split) < 100"
  shows "route_request tr m 100 = Inr (fst (hd split), tr)"
  using assms select_variant_none[of split 0 100] by (simp add: route_request_def)

lemma stats_total:
  "request_counts tr m = Some cs \<Longrightarrow> total_requests (get_traffic_stats tr m) = Some (sum_list (map snd cs))"
  by (simp add: get_traffic_stats_def Let_def)

lemma route_request_counter:
  assumes "request_counts tr m = Some cs" "map_of cs v = Some c"
  shows "counter (tr\<lparr>request_counts := (request_counts tr)(m \<mapsto> AList.update v (c + 1) cs)\<rparr>) m w =
           (if w = v then Some (c + 1) else counter tr m w)"
  using assms by (simp add: counter_def update_conv')

text \<open>
  Claim C10, amended. For a service whose stored split has non-negative weights summing
  to exactly 100 and whose counters were set up by \<^const>\<open>update_traffic_split\<close>, every
  \<^const>\<open>route_request\<close> with a draw in 1..100 returns one of the split's labels and
  raises exactly that variant's counter by 1, so a run of calls raises the total of
  the statistics by the number of calls. If the stored split is non-empty, has
  non-negative weights and sums to less than 100, the draw 100 takes the fallback
  path: the first label is returned and the router is unchanged.
\<close>

theorem route_request_accounting:
  assumes rule: "routing_rules tr m = Some split" and init: "counters_initialized tr m"
  shows "(spec_valid_split split \<longrightarrow>
            (\<forall>r. 1 \<le> r \<and> r \<le> 100 \<longrightarrow>
               (\<exists>v c tr'. route_request tr m r = Inr (v, tr') \<and> v \<in> set (map fst split) \<and>
                  counter tr m v = Some c \<and>
                  (\<forall>w. counter tr' m w = (if w = v then Some (c + 1) else counter tr m w)))) \<and>
            (\<forall>draws. list_all (\<lambda>r. 1 \<le> r \<and> r \<le> 100) draws \<longrightarrow>
               (\<exists>vs tr' n. route_requests tr m draws = Inr (vs, tr') \<and> length vs = length draws \<and>
                  list_all (\<lambda>v. v \<in> set (map fst split)) vs \<and>
                  total_requests (get_traffic_stats tr m) = Some n \<and>
                  total_requests (get_traffic_stats tr' m) = Some (n + int (length draws))))) \<and>
         (split \<noteq> [] \<and> list_all (\<lambda>(variant, weight). 0 \<le> weight) split \<and> sum_list (map snd split) < 100 \<longrightarrow>
            route_request tr m 100 = Inr (fst (hd split), tr))"
proof (intro conjI impI allI)
  fix r :: int
  assume v: "spec_valid_split split" and r: "1 \<le> r \<and> r \<le> 100"
  then have tot: "sum_list (map snd split) = 100" and r1: "1 \<le> r" and r2: "r \<le> 100"
    by (simp_all add: spec_valid_split_def)
  from route_request_step[OF rule init tot r1 r2] obtain v c cs where
    s: "request_counts tr m = Some cs" "map_of cs v = Some c" "v \<in> set (map fst split)"
       "route_request tr m r = Inr (v, tr\<lparr>request_counts := (request_counts tr)(m \<mapsto> AList.update v (c + 1) cs)\<rparr>)"
    by blast
  have "counter tr m v = Some c" using s(1,2) by (simp add: counter_def)
  with s(3,4) route_request_counter[OF s(1,2)]
  show "\<exists>v c tr'. route_request tr m r = Inr (v, tr') \<and> v \<in> set (map fst split) \<and>
                  counter tr m v = Some c \<and>
                  (\<forall>w. counter tr' m w = (if w = v then Some (c + 1) else counter tr m w))"
    by blast
next
  fix draws :: "int list"
  assume v: "spec_valid_split split" and d: "list_all (\<lambda>r. 1 \<le> r \<and> r \<le> 100) draws"
  then have tot: "sum_list (map snd split) = 100" by (simp add: spec_valid_split_def)
  from route_requests_total[OF rule init tot d] obtain vs tr' cs cs' where
    t: "route_requests tr m draws = Inr (vs, tr')" "length vs = length draws"
       "list_all (\<lambda>v. v \<in> set (map fst split)) vs"
       "request_counts tr m = Some cs" "request_counts tr' m = Some cs'"
       "sum_list (map snd cs') = sum_list (map snd cs) + int (length draws)"
    by blast
  show "\<exists>vs tr' n. route_requests tr m draws = Inr (vs, tr') \<and> length vs = length draws \<and>
                  list_all (\<lambda>v. v \<in> set (map fst split)) vs \<and>
                  total_requests (get_traffic_stats tr m) = Some n \<and>
                  total_requests (get_traffic_stats tr' m) = Some (n + int (length draws))"
    using t(1,2,3) stats_total[OF t(4)] stats_total[OF t(5)] t(6) by auto
next
  assume "split \<noteq> [] \<and> list_all (\<lambda>(variant, weight). 0 \<le> weight) split \<and> sum_list (map snd split) < 100"
  then show "route_request tr m 100 = Inr (fst (hd split), tr)"
    using route_request_fallback[OF rule] by blast
qed

lemma two_way_facts:
  "routing_rules two_way ''svc'' = Some [(''blue'', 25), (''green'', 75)]"
  "counters_initialized two_way ''svc''"
  "request_counts two_way ''svc'' = Some [(''blue'', 0), (''green'', 0)]"
  by (simp_all add: two_way_def update_traffic_split_def new_traffic_router_def counters_initialized_def)

lemma short_split_facts:
  "routing_rules short_split ''svc'' = Some [(''blue'', 25), (''green'', 50)]"
  "counters_initialized short_split ''svc''"
  by (simp_all add: short_split_def update_traffic_split_def new_traffic_router_def counters_initialized_def)

theorem route_request_accounting_witness:
  "spec_valid_split [(''blue'', 25), (''green'', 75)] \<and>
   (\<exists>tr'. route_requests two_way ''svc'' [1, 26, 100] = Inr ([''blue'', ''green'', ''green''], tr') \<and>
          total_requests (get_traffic_stats tr' ''svc'') = Some 3) \<and>
   route_request short_split ''svc'' 100 = Inr (''blue'', short_split)"
proof -
  have v: "spec_valid_split [(''blue'', 25), (''green'', 75)]" by (simp add: spec_valid_split_def)
  have d: "list_all (\<lambda>r. 1 \<le> r \<and> r \<le> 100) [1, 26, 100::int]" by simp
  have z: "total_requests (get_traffic_stats two_way ''svc'') = Some 0"
    by (simp add: get_traffic_stats_def two_way_facts(3))
  from route_request_accounting[OF two_way_facts(1,2)] v d obtain vs tr' n where
    t: "route_requests two_way ''svc'' [1, 26, 100] = Inr (vs, tr')"
       "total_requests (get_traffic_stats two_way ''svc'') = Some n"
       "total_requests (get_traffic_stats tr' ''svc'') = Some (n + int (length [1, 26, 100::int]))"
    by blast
  have "vs = [''blue'', ''green'', ''green'']"
    using t(1) by (simp add: route_request_def two_way_facts split: sum.splits prod.splits option.splits if_splits)
  moreover have "route_request short_split ''svc'' 100 = Inr (''blue'', short_split)"
    using route_request_accounting[OF short_split_facts(1,2)] by simp
  ultimately show ?thesis using v t z by simp
qed

text \<open>
  Claim C10 as stated fails for two stored splits that sum to less than 100. With
  weights 150 and -100 the first cumulative weight already covers every draw, so every
  call counts a request for the first variant and none takes the fallback path. With
  the empty split every call returns the sentinel \<^verbatim>\<open>default\<close>, which is no label of
  the split.
\<close>

theorem route_request_fallback_counterexample:
  "sum_list (map snd [(''a'', 150), (''b'', - 100 :: int)]) < 100 \<and>
   \<not> (\<exists>r. 1 \<le> r \<and> r \<le> 100 \<and>
          route_request (update_traffic_split new_traffic_router ''svc'' [(''a'', 150), (''b'', - 100)]) ''svc'' r =
            Inr (''a'', update_traffic_split new_traffic_router ''svc'' [(''a'', 150), (''b'', - 100)])) \<and>
   sum_list (map snd ([] :: traffic_split)) < 100 \<and>
   \<not> (\<exists>r. route_request (update_traffic_split new_traffic_router ''svc'' []) ''svc'' r \<noteq>
            Inr (''default'', update_traffic_split new_traffic_router ''svc'' []))"
  by (auto simp: route_request_def update_traffic_split_def new_traffic_router_def fun_eq_iff
      dest!: arg_cong[where f = "\<lambda>t. request_counts t ''svc''"])

text \<open>
  Claim C2, as the code has it. \<^verbatim>\<open>update_traffic_split\<close> has no check and no failing
  branch: every call stores the split it is given, so the stored split has non-negative
  weights summing to 100 exactly when the caller's split has.
\<close>

theorem update_traffic_split_unchecked:
  "routing_rules (update_traffic_split tr m split) m = Some split \<and>
   map_option spec_valid_split (routing_rules (update_traffic_split tr m split) m) = Some (spec_valid_split split)"
  by (simp add: update_traffic_split_def Let_def)

text \<open>
  Claim C2 as stated fails: over a stored valid split, a call with a negative weight
  and a sum of 40 replaces the stored split by the invalid one.
\<close>

theorem update_traffic_split_invalid_counterexample:
  "\<not> spec_valid_split [(''blue'', - 10), (''green'', 50)] \<and>
   routing_rules two_way ''svc'' = Some [(''blue'', 25), (''green'', 75)] \<and>
   routing_rules (update_traffic_split two_way ''svc'' [(''blue'', - 10), (''green'', 50)]) ''svc'' =
     Some [(''blue'', - 10), (''green'', 50)]"
  by (simp add: spec_valid_split_def two_way_def update_traffic_split_def Let_def)

section \<open>Properties of the canary manager\<close>


lemma calculate_next_bounded:
  "50 \<le> canary_traffic_percentage (config info) \<Longrightarrow>
   current_traffic_percentage info \<le> canary_traffic_percentage (config info) \<Longrightarrow>
   calculate_next_traffic_percentage info \<le> canary_traffic_percentage (config info)"
  by (simp add: calculate_next_traffic_percentage_def Let_def)














text \<open>
  Claim C3 fails on the code. The first four steps of the progression return 5, 10,
  25 and 50 without looking at the target; only the fifth takes the minimum with it.
  With target 20 the release starts at 5, and two proceed decisions take it to 10 and
  then to 25, above the target, while it is still running.
\<close>

theorem canary_traffic_overshoots_target:
  "canary_traffic_percentage (config (demo_info 20 ''v2'' [(''error_rate'', 1 / 20)])) = 20 \<and>
   calculate_next_traffic_percentage
     ((demo_info 20 ''v2'' [(''error_rate'', 1 / 20)])\<lparr>current_traffic_percentage := 10\<rparr>) = 25 \<and>
   (case monitor_canary_release demo_hash (demo_start 20 ''v2'' [(''error_rate'', 1 / 20)])
           (demo_id 20 ''v2'' [(''error_rate'', 1 / 20)]) [60, 120] of
      Inr m \<Rightarrow>
        (map_option (\<lambda>i. (canary_state i, map decision (evaluations i), current_traffic_percentage i))
           (active_canaries m (demo_id 20 ''v2'' [(''error_rate'', 1 / 20)])),
         routing_rules (canary_router m) ''gpt'')
    | Inl e \<Rightarrow> (None, None)) =
     (Some (RUNNING, [Proceed, Proceed], 25), Some [(''canary'', 25), (''baseline'', 75)])"
  by (intro conjI) code_simp+

text \<open>
  Claim C4 fails on the code. A finished release stays in \<^verbatim>\<open>active_canaries\<close>, which
  \<^verbatim>\<open>get_canary_status\<close> consults first: after two evaluations and the completion of
  the release, the stored result holds both evaluations and the final status, but the
  status query answers with the live summary, which has only their number and the
  last of them.
\<close>

theorem get_canary_status_after_completion:
  "(case monitor_canary_release demo_hash (demo_start 50 ''v2'' [(''error_rate'', 1 / 20)])
           (demo_id 50 ''v2'' [(''error_rate'', 1 / 20)]) [60, 120, 180] of
      Inr m \<Rightarrow>
        (case get_canary_status m (demo_id 50 ''v2'' [(''error_rate'', 1 / 20)]) of
           Live l \<Rightarrow> Some (live_status l, evaluations_count l, map_option decision (latest_evaluation l))
         | Finalized r \<Rightarrow> None
         | Not_found \<Rightarrow> None,
         map_option (\<lambda>r. (final_status r, map decision (result_evaluations r)))
           (canary_results m (demo_id 50 ''v2'' [(''error_rate'', 1 / 20)])))
    | Inl e \<Rightarrow> (None, None)) =
     (Some (COMPLETED, 2, Some Proceed), Some (''success'', [Proceed, Proceed]))"
  by code_simp

text \<open>
  An id stays in \<^verbatim>\<open>active_canaries\<close> once it is there, and the status query of such an
  id is always the live summary.
\<close>

lemma monitor_cycle_keeps_ids:
  "monitor_cycle hash mgr cid now = Inr mgr' \<Longrightarrow> active_canaries mgr c \<noteq> None \<Longrightarrow> active_canaries mgr' c \<noteq> None"
  by (auto simp: monitor_cycle_def Let_def split: option.splits if_splits sum.splits prod.splits)

lemma get_canary_status_issued:
  "active_canaries mgr cid \<noteq> None \<Longrightarrow> \<exists>l. get_canary_status mgr cid = Live l"
  by (auto simp: get_canary_status_def)

lemma get_canary_status_unknown:
  "active_canaries mgr cid = None \<Longrightarrow> canary_results mgr cid = None \<Longrightarrow> get_canary_status mgr cid = Not_found"
  by (simp add: get_canary_status_def)

section \<open>Properties of the health checker and the blue-green manager\<close>

lemma digit_char_is_digit: "d < 10 \<Longrightarrow> is_digit (digit_char d)"
proof -
  assume "d < 10"
  then have "d \<in> {0, 1, 2, 3, 4, 5, 6, 7, 8, 9}" by auto
  then show ?thesis by (auto simp: is_digit_def digit_char_def)
qed

lemma str_nat_digits: "c \<in> set (str_nat n) \<Longrightarrow> is_digit c"
proof (induction n arbitrary: c rule: str_nat.induct)
  case (1 n)
  show ?case
  proof (cases "n < 10")
    case True
    with 1(2) show ?thesis by (simp add: str_nat.simps[of n] digit_char_is_digit)
  next
    case False
    with 1 show ?thesis by (auto simp: str_nat.simps[of n] digit_char_is_digit)
  qed
qed

lemma dash_not_digit: "\<not> is_digit CHR ''-''"
  by (simp add: is_digit_def)

lemma strip_digits: "dropWhile is_digit (rev (str_nat n) @ ys) = dropWhile is_digit ys"
  by (rule dropWhile_append2) (simp add: str_nat_digits)

lemma rev_str_int_strip:
  "dropWhile (\<lambda>c. c = CHR ''-'') (dropWhile is_digit (rev (str_int t) @ CHR ''-'' # CHR ''e'' # rest)) = CHR ''e'' # rest"
  "dropWhile (\<lambda>c. c = CHR ''-'') (dropWhile is_digit (rev (str_int t) @ CHR ''-'' # CHR ''n'' # rest)) = CHR ''n'' # rest"
  by (simp_all add: str_int_def strip_digits dash_not_digit)

lemma id_slot_letter_deployment_id:
  "id_slot_letter (deployment_id_of m v s t) = Some (last (slot_value s))"
  by (cases s) (simp_all add: id_slot_letter_def deployment_id_of_def rev_str_int_strip)

lemma deployment_id_slots_differ:
  "s \<noteq> s' \<Longrightarrow> id_slot_letter (deployment_id_of m v s t) \<noteq> Some (last (slot_value s'))"
  by (cases s; cases s') (simp_all add: id_slot_letter_deployment_id)

lemma count_passed_tests_raises:
  "(\<exists>e. count_passed_tests reply inputs n = Inl e) \<longleftrightarrow> (\<exists>input \<in> set inputs. isl (reply input))"
proof (induction inputs arbitrary: n)
  case Nil
  then show ?case by simp
next
  case (Cons input rest)
  show ?case
  proof (cases "reply input")
    case (Inl e)
    then show ?thesis by simp
  next
    case (Inr response)
    then show ?thesis using Cons.IH by simp
  qed
qed

lemma connectivity_rule:
  "\<exists>c d'. validate_endpoint_connectivity pr d = (Inr c, d') \<and> check_name c = ''endpoint_connectivity'' \<and>
          (isl (observed_health pr) \<longrightarrow> \<not> check_passed c) \<and> same_identity d d'"
  by (cases "observed_health pr") (simp_all add: validate_endpoint_connectivity_def same_identity_def)

lemma response_rule:
  "\<exists>c d'. validate_model_response pr d = (Inr c, d') \<and> check_name c = ''model_response_validation'' \<and>
          ((\<exists>input \<in> set test_inputs. isl (model_reply pr input)) \<longrightarrow> \<not> check_passed c) \<and> same_identity d d'"
proof (cases "count_passed_tests (model_reply pr) test_inputs 0")
  case (Inl e)
  then show ?thesis by (simp add: validate_model_response_def same_identity_def)
next
  case (Inr n)
  then have "\<not> (\<exists>input \<in> set test_inputs. isl (model_reply pr input))"
    using count_passed_tests_raises[of "model_reply pr" test_inputs 0] by simp
  with Inr show ?thesis by (simp add: validate_model_response_def same_identity_def Let_def)
qed

lemma performance_rule:
  "\<exists>c d'. validate_performance_metrics pr d = (Inr c, d') \<and> check_name c = ''performance_validation'' \<and>
          (isl (measured_times pr) \<longrightarrow> \<not> check_passed c) \<and> same_identity d d'"
  by (cases "measured_times pr") (simp_all add: validate_performance_metrics_def same_identity_def Let_def)

lemma compatibility_rule:
  "\<exists>c d'. validate_api_compatibility pr d = (Inr c, d') \<and> check_name c = ''api_compatibility'' \<and>
          (isl (compatibility_score pr) \<longrightarrow> \<not> check_passed c) \<and> same_identity d d'"
  by (cases "compatibility_score pr") (simp_all add: validate_api_compatibility_def same_identity_def)

lemma record_check_consistent:
  "report_consistent vr \<Longrightarrow> report_consistent (record_check c vr)"
  by (auto simp: report_consistent_def record_check_def Let_def)

lemma record_check_checks:
  "checks (record_check c vr) = checks vr @ [c]"
  by (simp add: record_check_def Let_def)

lemma run_rules_step:
  "rule d = (Inr c, d') \<Longrightarrow> run_rules (rule # rest) d vr = run_rules rest d' (record_check c vr)"
  by simp

lemma same_identity_trans: "same_identity a b \<Longrightarrow> same_identity b c \<Longrightarrow> same_identity a c"
  by (simp add: same_identity_def)

lemma validate_deployment_shape:
  "\<exists>c1 c2 c3 c4 vr d'.
     validate_deployment pr d = (vr, d') \<and> checks vr = [c1, c2, c3, c4] \<and>
     check_name c1 = ''endpoint_connectivity'' \<and> check_name c2 = ''model_response_validation'' \<and>
     check_name c3 = ''performance_validation'' \<and> check_name c4 = ''api_compatibility'' \<and>
     (isl (observed_health pr) \<longrightarrow> \<not> check_passed c1) \<and>
     ((\<exists>input \<in> set test_inputs. isl (model_reply pr input)) \<longrightarrow> \<not> check_passed c2) \<and>
     (isl (measured_times pr) \<longrightarrow> \<not> check_passed c3) \<and>
     (isl (compatibility_score pr) \<longrightarrow> \<not> check_passed c4) \<and>
     report_consistent vr \<and> same_identity d d'"
proof -
  let ?vr0 = "\<lparr>validated_id = deployment_id d, passed = True, checks = [], errors = [], warnings = []\<rparr>"
  from connectivity_rule[of pr d] obtain c1 d1 where
    r1: "validate_endpoint_connectivity pr d = (Inr c1, d1)" "check_name c1 = ''endpoint_connectivity''"
        "isl (observed_health pr) \<longrightarrow> \<not> check_passed c1" "same_identity d d1" by blast
  from response_rule[of pr d1] obtain c2 d2 where
    r2: "validate_model_response pr d1 = (Inr c2, d2)" "check_name c2 = ''model_response_validation''"
        "(\<exists>input \<in> set test_inputs. isl (model_reply pr input)) \<longrightarrow> \<not> check_passed c2" "same_identity d1 d2" by blast
  from performance_rule[of pr d2] obtain c3 d3 where
    r3: "validate_performance_metrics pr d2 = (Inr c3, d3)" "check_name c3 = ''performance_validation''"
        "isl (measured_times pr) \<longrightarrow> \<not> check_passed c3" "same_identity d2 d3" by blast
  from compatibility_rule[of pr d3] obtain c4 d4 where
    r4: "validate_api_compatibility pr d3 = (Inr c4, d4)" "check_name c4 = ''api_compatibility''"
        "isl (compatibility_score pr) \<longrightarrow> \<not> check_passed c4" "same_identity d3 d4" by blast
  let ?vr = "record_check c4 (record_check c3 (record_check c2 (record_check c1 ?vr0)))"
  have s1: "run_rules (validate_endpoint_connectivity pr # rest) d vr = run_rules rest d1 (record_check c1 vr)"
    for rest vr using r1(1) by simp
  have s2: "run_rules (validate_model_response pr # rest) d1 vr = run_rules rest d2 (record_check c2 vr)"
    for rest vr using r2(1) by simp
  have s3: "run_rules (validate_performance_metrics pr # rest) d2 vr = run_rules rest d3 (record_check c3 vr)"
    for rest vr using r3(1) by simp
  have s4: "run_rules (validate_api_compatibility pr # rest) d3 vr = run_rules rest d4 (record_check c4 vr)"
    for rest vr using r4(1) by simp
  have run: "validate_deployment pr d = (?vr, d4)"
    unfolding validate_deployment_def validation_rules_def
    by (simp only: s1 s2 s3 s4 run_rules.simps(1))
  have cons: "report_consistent ?vr"
    by (rule record_check_consistent)+ (simp add: report_consistent_def)
  have chk: "checks ?vr = [c1, c2, c3, c4]" by (simp add: record_check_checks)
  have ident: "same_identity d d4"
    using r1(4) r2(4) r3(4) r4(4) same_identity_trans by blast
  show ?thesis
    using run chk r1(2,3) r2(2,3) r3(2,3) r4(2,3) cons ident by blast
qed

lemma map_of_mark_inactive:
  "map_of (mark_inactive m s ds) k = map_option (retire m s) (map_of ds k)"
  by (induction ds) (auto simp: mark_inactive_def)

lemma keys_mark_inactive: "map fst (mark_inactive m s ds) = map fst ds"
  by (induction ds) (auto simp: mark_inactive_def)

lemma retire_fields:
  "model_name (retire m s d) = model_name d" "slot (retire m s d) = slot d"
  by (simp_all add: retire_def)

lemma retire_active:
  "status (retire m s d) = ACTIVE \<longleftrightarrow> status d = ACTIVE \<and> \<not> (model_name d = m \<and> slot d = s)"
  by (simp add: retire_def)

lemma registry_ok_router [simp]: "registry_ok (bg\<lparr>bg_router := tr\<rparr>) = registry_ok bg"
  by (simp add: registry_ok_def)

lemma set_status_ok:
  assumes "registry_ok bg" "st \<noteq> ACTIVE"
  shows "registry_ok (set_status k st bg)"
  using assms
  by (auto simp: registry_ok_def set_status_def distinct_map_entry map_of_map_entry entry_ok_def
      split: option.splits if_splits)

lemma register_ok:
  assumes "registry_ok bg" "id_slot_letter did = Some (last (slot_value (slot d)))" "status d \<noteq> ACTIVE"
  shows "registry_ok (bg\<lparr>deployments := AList.update did d (deployments bg)\<rparr>)"
  using assms
  by (auto simp: registry_ok_def distinct_update update_conv' entry_ok_def split: if_splits)

lemma opposite_differs [simp]: "get_opposite_slot s \<noteq> s" "s \<noteq> get_opposite_slot s"
  by (cases s; simp add: get_opposite_slot_def)+

lemma find_Some_mem: "find P xs = Some x \<Longrightarrow> x \<in> set xs \<and> P x"
  by (induction xs) (auto split: if_splits)

lemma rollback_ok:
  assumes ok: "registry_ok bg"
  shows "registry_ok (snd (rollback_deployment bg m))"
proof (cases "active_slots bg m")
  case None
  with ok show ?thesis by (simp add: rollback_deployment_def)
next
  case (Some cur)
  let ?prev = "get_opposite_slot cur"
  let ?P = "\<lambda>(k, d). model_name d = m \<and> slot d = ?prev \<and> status d = INACTIVE"
  show ?thesis
  proof (cases "find ?P (deployments bg)")
    case None
    with Some ok show ?thesis by (simp add: rollback_deployment_def Let_def)
  next
    case (Some kp)
    obtain k p where kp: "kp = (k, p)" by (cases kp)
    from find_Some_mem[OF Some] kp have mem: "(k, p) \<in> set (deployments bg)"
      and p: "model_name p = m" "slot p = ?prev"
      by auto
    let ?ds1 = "AList.map_entry k (\<lambda>d. d\<lparr>status := ACTIVE, traffic_percentage := 100\<rparr>) (deployments bg)"
    let ?bg' = "bg\<lparr>bg_router := update_traffic_split (bg_router bg) m [(slot_value ?prev, 100), (slot_value cur, 0)],
                   deployments := mark_inactive m cur ?ds1,
                   active_slots := (active_slots bg)(m \<mapsto> ?prev)\<rparr>"
    have res: "snd (rollback_deployment bg m) = ?bg'"
      using \<open>active_slots bg m = Some cur\<close> Some kp by (simp add: rollback_deployment_def Let_def)
    from ok have dist: "distinct (map fst (deployments bg))"
      and ent: "\<And>k d. map_of (deployments bg) k = Some d \<Longrightarrow> entry_ok (active_slots bg) k d"
      by (auto simp: registry_ok_def)
    from dist mem have kp_map: "map_of (deployments bg) k = Some p" by simp
    have "entry_ok ((active_slots bg)(m \<mapsto> ?prev)) k' d'"
      if look: "map_of (mark_inactive m cur ?ds1) k' = Some d'" for k' d'
    proof (cases "k' = k")
      case True
      with look kp_map have "d' = retire m cur (p\<lparr>status := ACTIVE, traffic_percentage := 100\<rparr>)"
        by (simp add: map_of_mark_inactive map_of_map_entry)
      with p have d': "d' = p\<lparr>status := ACTIVE, traffic_percentage := 100\<rparr>"
        by (simp add: retire_def)
      from ent[OF kp_map] have "id_slot_letter k = Some (last (slot_value (slot p)))"
        by (simp add: entry_ok_def)
      with d' p True show ?thesis by (simp add: entry_ok_def)
    next
      case False
      with look obtain d0 where d0: "map_of (deployments bg) k' = Some d0" "d' = retire m cur d0"
        by (auto simp: map_of_mark_inactive map_of_map_entry)
      from ent[OF d0(1)] have e: "id_slot_letter k' = Some (last (slot_value (slot d0)))"
        "status d0 = ACTIVE \<longrightarrow> active_slots bg (model_name d0) = Some (slot d0)"
        by (simp_all add: entry_ok_def)
      show ?thesis
        using e d0(2) \<open>active_slots bg m = Some cur\<close>
        by (auto simp: entry_ok_def retire_def)
    qed
    moreover have "distinct (map fst (mark_inactive m cur ?ds1))"
      using dist by (simp add: keys_mark_inactive distinct_map_entry)
    ultimately have "registry_ok ?bg'" by (simp add: registry_ok_def)
    with res show ?thesis by simp
  qed
qed

lemma switch_ok:
  assumes ok: "registry_ok bg"
    and look: "map_of (deployments bg) did = Some d"
    and d: "model_name d = m" "slot d = new"
    and new: "\<And>s. active_slots bg m = Some s \<Longrightarrow> new \<noteq> s"
  shows "registry_ok (set_status did ACTIVE (complete_blue_green_switch bg m new))"
proof -
  let ?ds = "case active_slots bg m of None \<Rightarrow> deployments bg | Some s \<Rightarrow> mark_inactive m s (deployments bg)"
  let ?act = "(active_slots bg)(m \<mapsto> new)"
  from ok have dist: "distinct (map fst (deployments bg))"
    and ent: "\<And>k d. map_of (deployments bg) k = Some d \<Longrightarrow> entry_ok (active_slots bg) k d"
    by (auto simp: registry_ok_def)
  have dist': "distinct (map fst ?ds)"
    using dist by (simp add: keys_mark_inactive split: option.splits)
  have look': "map_of ?ds k = (case active_slots bg m of None \<Rightarrow> map_of (deployments bg) k
                 | Some s \<Rightarrow> map_option (retire m s) (map_of (deployments bg) k))" for k
    by (simp add: map_of_mark_inactive split: option.splits)
  have "entry_ok ?act k' d'"
    if l: "map_of (AList.map_entry did (\<lambda>d. d\<lparr>status := ACTIVE\<rparr>) ?ds) k' = Some d'" for k' d'
  proof (cases "k' = did")
    case True
    from l True look obtain d1 where d1: "map_of ?ds did = Some d1" "d' = d1\<lparr>status := ACTIVE\<rparr>"
      by (auto simp: map_of_map_entry split: option.splits)
    from d1(1) look have "slot d1 = new \<and> model_name d1 = m"
      using d by (auto simp: look' retire_fields split: option.splits)
    moreover from ent[OF look] d have "id_slot_letter did = Some (last (slot_value new))"
      by (simp add: entry_ok_def)
    ultimately show ?thesis using d1(2) True by (simp add: entry_ok_def)
  next
    case False
    with l have l1: "map_of ?ds k' = Some d'" by (simp add: map_of_map_entry)
    show ?thesis
    proof (cases "active_slots bg m")
      case None
      with l1 have "map_of (deployments bg) k' = Some d'" by simp
      from ent[OF this] None show ?thesis by (auto simp: entry_ok_def)
    next
      case (Some s)
      with l1 obtain d0 where d0: "map_of (deployments bg) k' = Some d0" "d' = retire m s d0"
        by (auto simp: map_of_mark_inactive)
      from ent[OF d0(1)] Some d0(2) show ?thesis by (auto simp: entry_ok_def retire_def)
    qed
  qed
  moreover have "distinct (map fst (AList.map_entry did (\<lambda>d. d\<lparr>status := ACTIVE\<rparr>) ?ds))"
    using dist' by (simp add: distinct_map_entry)
  ultimately show ?thesis
    by (simp add: registry_ok_def set_status_def complete_blue_green_switch_def Let_def)
qed

lemma target_slot_differs: "active_slots bg m = Some s \<Longrightarrow> target_slot bg m \<noteq> s"
  by (cases s) (simp_all add: target_slot_def)

lemma deploy_provisioning_failed:
  "provisioning env = Some e \<Longrightarrow>
   deploy_new_version env bg m v =
     (Deployment_failed e, set_status (deployment_id_of m v (target_slot bg m) (clock env)) FAILED bg)"
  by (simp add: deploy_new_version_def Let_def)

lemma deploy_validated:
  assumes "provisioning env = None"
    and "validate_deployment (probe env) (staged_deployment m v (target_slot bg m) (clock env)) = (vr, d')"
  shows "deploy_new_version env bg m v =
     (if \<not> passed vr then
        (Validation_failed vr,
         set_status (deployment_id_of m v (target_slot bg m) (clock env)) FAILED
           (bg\<lparr>deployments := AList.update (deployment_id_of m v (target_slot bg m) (clock env)) d' (deployments bg)\<rparr>))
      else
        (case gradual_traffic_shift (live_metrics env) (bg_router bg) m (target_slot bg m) traffic_steps of
           (tr, Some monitoring) \<Rightarrow>
             (Traffic_shift_failed monitoring,
              snd (rollback_deployment
                     (set_status (deployment_id_of m v (target_slot bg m) (clock env)) FAILED
                        (bg\<lparr>deployments := AList.update (deployment_id_of m v (target_slot bg m) (clock env)) d' (deployments bg),
                            bg_router := tr\<rparr>)) m))
         | (tr, None) \<Rightarrow>
             (Deployed (deployment_id_of m v (target_slot bg m) (clock env)) (slot_value (target_slot bg m)) (endpoint_url d'),
              set_status (deployment_id_of m v (target_slot bg m) (clock env)) ACTIVE
                (complete_blue_green_switch
                   (bg\<lparr>deployments := AList.update (deployment_id_of m v (target_slot bg m) (clock env)) d' (deployments bg),
                       bg_router := tr\<rparr>) m (target_slot bg m)))))"
  using assms by (simp add: deploy_new_version_def Let_def)

lemma validated_identity:
  assumes "validate_deployment pr (staged_deployment m v s now) = (vr, d')"
  shows "model_name d' = m" "slot d' = s" "status d' = STAGING" "traffic_percentage d' = 0"
    "deployment_id d' = deployment_id_of m v s now"
  using validate_deployment_shape[of pr "staged_deployment m v s now"] assms
  by (auto simp: same_identity_def staged_deployment_def)

lemma deploy_ok:
  assumes ok: "registry_ok bg"
  shows "registry_ok (snd (deploy_new_version env bg m v))"
proof (cases "provisioning env")
  case (Some e)
  then show ?thesis using ok by (simp add: deploy_provisioning_failed set_status_ok)
next
  case None
  let ?new = "target_slot bg m"
  let ?did = "deployment_id_of m v ?new (clock env)"
  obtain vr d' where val: "validate_deployment (probe env) (staged_deployment m v ?new (clock env)) = (vr, d')"
    by (cases "validate_deployment (probe env) (staged_deployment m v ?new (clock env))")
  note d' = validated_identity[OF val]
  let ?bg1 = "bg\<lparr>deployments := AList.update ?did d' (deployments bg)\<rparr>"
  have ok1: "registry_ok ?bg1"
    using ok d' by (intro register_ok) (simp_all add: id_slot_letter_deployment_id)
  show ?thesis
  proof (cases "passed vr")
    case False
    then show ?thesis using ok1 by (simp add: deploy_validated[OF None val] set_status_ok)
  next
    case True
    obtain tr mon where sh: "gradual_traffic_shift (live_metrics env) (bg_router bg) m ?new traffic_steps = (tr, mon)"
      by (cases "gradual_traffic_shift (live_metrics env) (bg_router bg) m ?new traffic_steps")
    have ok2: "registry_ok (bg\<lparr>deployments := AList.update ?did d' (deployments bg), bg_router := tr\<rparr>)"
      using ok1 by (simp add: registry_ok_def)
    show ?thesis
    proof (cases mon)
      case (Some monitoring)
      then show ?thesis
        using True sh ok2 by (simp add: deploy_validated[OF None val] rollback_ok set_status_ok)
    next
      case None
      have "registry_ok (set_status ?did ACTIVE
              (complete_blue_green_switch
                 (bg\<lparr>deployments := AList.update ?did d' (deployments bg), bg_router := tr\<rparr>) m ?new))"
        using ok2 d' by (intro switch_ok[where d = d']) (simp_all add: update_conv' target_slot_differs)
      then show ?thesis
        using True sh None by (simp add: deploy_validated[OF \<open>provisioning env = None\<close> val])
    qed
  qed
qed

lemma reachable_ok: "reachable bg \<Longrightarrow> registry_ok bg"
proof (induction rule: reachable.induct)
  case (fresh tr)
  then show ?case by (simp add: registry_ok_def new_blue_green_def)
next
  case (deploy bg env model version)
  then show ?case by (simp add: deploy_ok)
next
  case (rollback bg model)
  then show ?case by (simp add: rollback_ok)
qed

lemma slot_letter_inj: "last (slot_value s) = last (slot_value s') \<Longrightarrow> s = s'"
  by (cases s; cases s') simp_all

lemma filter_single:
  assumes "distinct (map fst xs)" "(k, v) \<in> set xs" "P (k, v)"
    and "\<And>k' v'. (k', v') \<in> set xs \<Longrightarrow> P (k', v') \<Longrightarrow> k' = k"
  shows "filter P xs = [(k, v)]"
  using assms
proof (induction xs)
  case Nil
  then show ?case by simp
next
  case (Cons x xs)
  obtain k0 v0 where x: "x = (k0, v0)" by (cases x)
  from Cons.prems(1) x have notin: "k0 \<notin> fst ` set xs" and dist: "distinct (map fst xs)" by simp_all
  show ?case
  proof (cases "k0 = k")
    case True
    have "(k, v) \<notin> set xs" using notin True by force
    with Cons.prems(2) x have v0: "v0 = v" by simp
    have "\<not> P y" if "y \<in> set xs" for y
    proof
      assume "P y"
      obtain k1 v1 where y1: "y = (k1, v1)" by (cases y)
      have "(k1, v1) \<in> set (x # xs)" using that y1 by simp
      from Cons.prems(4)[OF this] \<open>P y\<close> y1 have "k1 = k" by simp
      with that y1 notin True show False by force
    qed
    then have "filter P xs = []" by (simp add: filter_empty_conv)
    with True x v0 Cons.prems(3) show ?thesis by simp
  next
    case False
    have np: "\<not> P x"
    proof
      assume "P x"
      with x Cons.prems(4)[of k0 v0] have "k0 = k" by simp
      with False show False by simp
    qed
    have mem: "(k, v) \<in> set xs" using Cons.prems(2) x False by simp
    have "filter P xs = [(k, v)]"
    proof (rule Cons.IH[OF dist mem Cons.prems(3)])
      fix k' v'
      assume a: "(k', v') \<in> set xs" "P (k', v')"
      then have "(k', v') \<in> set (x # xs)" by simp
      from Cons.prems(4)[OF this a(2)] show "k' = k" .
    qed
    with np show ?thesis by simp
  qed
qed

lemma deploy_success_form:
  assumes res: "deploy_new_version env bg m v = (Deployed did sl ep, bg')"
  shows "\<exists>vr d' tr.
           validate_deployment (probe env) (staged_deployment m v (target_slot bg m) (clock env)) = (vr, d') \<and>
           did = deployment_id_of m v (target_slot bg m) (clock env) \<and>
           bg' = set_status did ACTIVE
                   (complete_blue_green_switch
                      (bg\<lparr>deployments := AList.update did d' (deployments bg), bg_router := tr\<rparr>) m (target_slot bg m))"
proof (cases "provisioning env")
  case (Some e)
  with res show ?thesis by (simp add: deploy_provisioning_failed)
next
  case None
  obtain vr d' where val: "validate_deployment (probe env) (staged_deployment m v (target_slot bg m) (clock env)) = (vr, d')"
    by (cases "validate_deployment (probe env) (staged_deployment m v (target_slot bg m) (clock env))")
  obtain tr mon where sh: "gradual_traffic_shift (live_metrics env) (bg_router bg) m (target_slot bg m) traffic_steps = (tr, mon)"
    by (cases "gradual_traffic_shift (live_metrics env) (bg_router bg) m (target_slot bg m) traffic_steps")
  from res have "passed vr \<and> mon = None \<and> did = deployment_id_of m v (target_slot bg m) (clock env) \<and>
      bg' = set_status did ACTIVE
                   (complete_blue_green_switch
                      (bg\<lparr>deployments := AList.update did d' (deployments bg), bg_router := tr\<rparr>) m (target_slot bg m))"
    unfolding deploy_validated[OF None val] sh by (auto split: if_splits option.splits)
  with val show ?thesis by blast
qed

lemma switched_registry:
  assumes dist: "distinct (map fst (deployments bg))"
    and d': "model_name d' = m" "slot d' = new"
    and new: "\<And>s. active_slots bg m = Some s \<Longrightarrow> new \<noteq> s"
  shows "map_of (deployments (set_status did ACTIVE
            (complete_blue_green_switch
               (bg\<lparr>deployments := AList.update did d' (deployments bg), bg_router := tr\<rparr>) m new))) k =
         (if k = did then Some (d'\<lparr>status := ACTIVE\<rparr>)
          else case active_slots bg m of
                 None \<Rightarrow> map_of (deployments bg) k
               | Some s \<Rightarrow> map_option (retire m s) (map_of (deployments bg) k))"
proof (cases "active_slots bg m")
  case None
  then show ?thesis
    by (simp add: set_status_def complete_blue_green_switch_def Let_def map_of_map_entry update_conv')
next
  case (Some s)
  with new d' have "retire m s d' = d'" by (simp add: retire_def)
  with Some show ?thesis
    by (simp add: set_status_def complete_blue_green_switch_def Let_def map_of_map_entry update_conv'
        map_of_mark_inactive)
qed

lemma switched_keys:
  "distinct (map fst (deployments bg)) \<Longrightarrow>
   distinct (map fst (deployments (set_status did ACTIVE
            (complete_blue_green_switch
               (bg\<lparr>deployments := AList.update did d' (deployments bg), bg_router := tr\<rparr>) m new))))"
  by (simp add: set_status_def complete_blue_green_switch_def Let_def distinct_map_entry distinct_update
      keys_mark_inactive split: option.splits)

text \<open>
  Claim C7. In every state that the manager can reach, a call of \<^verbatim>\<open>deploy_new_version\<close>
  that returns success leaves exactly one deployment of the service with status
  \<open>ACTIVE\<close>, the new one, and every deployment of the service that was active before
  the call is \<open>INACTIVE\<close> with traffic percentage 0.
\<close>

theorem successful_deploy_single_active:
  assumes reach: "reachable bg"
    and res: "deploy_new_version env bg m v = (Deployed did sl ep, bg')"
  shows "(\<exists>d. active_deployments bg' m = [(did, d)]) \<and>
         list_all (\<lambda>(k, d). case map_of (deployments bg') k of
                               None \<Rightarrow> False
                             | Some d' \<Rightarrow> status d' = INACTIVE \<and> traffic_percentage d' = 0)
           (active_deployments bg m)"
proof -
  from reachable_ok[OF reach] have dist: "distinct (map fst (deployments bg))"
    and ent: "\<And>k d. map_of (deployments bg) k = Some d \<Longrightarrow> entry_ok (active_slots bg) k d"
    by (auto simp: registry_ok_def)
  let ?new = "target_slot bg m"
  from deploy_success_form[OF res] obtain vr d' tr where
    val: "validate_deployment (probe env) (staged_deployment m v ?new (clock env)) = (vr, d')"
    and did: "did = deployment_id_of m v ?new (clock env)"
    and bg': "bg' = set_status did ACTIVE
                   (complete_blue_green_switch
                      (bg\<lparr>deployments := AList.update did d' (deployments bg), bg_router := tr\<rparr>) m ?new)"
    by blast
  note idn = validated_identity[OF val]
  have look: "map_of (deployments bg') k =
         (if k = did then Some (d'\<lparr>status := ACTIVE\<rparr>)
          else case active_slots bg m of
                 None \<Rightarrow> map_of (deployments bg) k
               | Some s \<Rightarrow> map_option (retire m s) (map_of (deployments bg) k))" for k
    unfolding bg' by (rule switched_registry[OF dist idn(1,2) target_slot_differs])
  have dist': "distinct (map fst (deployments bg'))"
    unfolding bg' by (rule switched_keys[OF dist])
  let ?P = "\<lambda>(k, d). model_name d = m \<and> status d = ACTIVE"
  have others: "k = did" if a: "(k, d) \<in> set (deployments bg')" "?P (k, d)" for k d
  proof (rule ccontr)
    assume ne: "k \<noteq> did"
    from a(1) dist' have l: "map_of (deployments bg') k = Some d" by simp
    show False
    proof (cases "active_slots bg m")
      case None
      with l ne have "map_of (deployments bg) k = Some d" by (simp add: look)
      from ent[OF this] a(2) None show False by (simp add: entry_ok_def)
    next
      case (Some s)
      with l ne obtain d0 where d0: "map_of (deployments bg) k = Some d0" "d = retire m s d0"
        by (auto simp: look)
      from a(2) d0(2) have "status d0 = ACTIVE" "model_name d0 = m" "slot d0 \<noteq> s"
        by (auto simp: retire_def split: if_splits)
      with ent[OF d0(1)] Some show False by (simp add: entry_ok_def)
    qed
  qed
  have new_in: "(did, d'\<lparr>status := ACTIVE\<rparr>) \<in> set (deployments bg')"
    using look[of did] by (simp add: map_of_SomeD)
  have one: "active_deployments bg' m = [(did, d'\<lparr>status := ACTIVE\<rparr>)]"
    unfolding active_deployments_def
    by (rule filter_single[OF dist' new_in]) (use idn others in auto)
  have prev: "case map_of (deployments bg') k of None \<Rightarrow> False
              | Some d' \<Rightarrow> status d' = INACTIVE \<and> traffic_percentage d' = 0"
    if a: "(k, d) \<in> set (active_deployments bg m)" for k d
  proof -
    from a have mem: "(k, d) \<in> set (deployments bg)" and d: "model_name d = m" "status d = ACTIVE"
      by (auto simp: active_deployments_def)
    from mem dist have l: "map_of (deployments bg) k = Some d" by simp
    from ent[OF l] d have act: "active_slots bg m = Some (slot d)"
      and letter: "id_slot_letter k = Some (last (slot_value (slot d)))"
      by (simp_all add: entry_ok_def)
    have "id_slot_letter did = Some (last (slot_value ?new))"
      by (simp add: did id_slot_letter_deployment_id)
    moreover have "?new \<noteq> slot d" by (rule target_slot_differs[OF act])
    ultimately have "k \<noteq> did" using letter slot_letter_inj by auto
    then have "map_of (deployments bg') k = Some (retire m (slot d) d)"
      using act l by (simp add: look)
    then show ?thesis using d by (simp add: retire_def)
  qed
  have "list_all (\<lambda>(k, d). case map_of (deployments bg') k of
                               None \<Rightarrow> False
                             | Some d' \<Rightarrow> status d' = INACTIVE \<and> traffic_percentage d' = 0)
           (active_deployments bg m)"
    unfolding list_all_iff using prev by auto
  with one show ?thesis by simp
qed

theorem successful_deploy_single_active_witness:
  "map fst (active_deployments after_v1 ''gpt'') = [''gpt-v1-green-1''] \<and>
   map fst (active_deployments after_v2 ''gpt'') = [''gpt-v2-blue-2''] \<and>
   map_option (\<lambda>d. (status d, traffic_percentage d)) (map_of (deployments after_v2) ''gpt-v1-green-1'') =
     Some (INACTIVE, 0)"
proof -
  have r: "reachable after_v1"
    unfolding after_v1_def by (intro reachable.deploy reachable.fresh)
  have f: "fst (deploy_new_version (ok_env 2) after_v1 ''gpt'' ''v2'') =
             Deployed ''gpt-v2-blue-2'' ''blue'' ''https://gpt-blue.cognitiveservices.azure.com''"
    by code_simp
  have res: "deploy_new_version (ok_env 2) after_v1 ''gpt'' ''v2'' =
               (Deployed ''gpt-v2-blue-2'' ''blue'' ''https://gpt-blue.cognitiveservices.azure.com'', after_v2)"
    using f by (simp add: after_v2_def prod_eq_iff)
  have k: "map fst (active_deployments after_v1 ''gpt'') = [''gpt-v1-green-1'']"
    by code_simp
  then obtain d1 where a1: "active_deployments after_v1 ''gpt'' = [(''gpt-v1-green-1'', d1)]"
    by (cases "active_deployments after_v1 ''gpt''") auto
  from successful_deploy_single_active[OF r res] a1 obtain d where
    one: "active_deployments after_v2 ''gpt'' = [(''gpt-v2-blue-2'', d)]"
    and old: "case map_of (deployments after_v2) ''gpt-v1-green-1'' of None \<Rightarrow> False
              | Some d' \<Rightarrow> status d' = INACTIVE \<and> traffic_percentage d' = 0"
    by auto
  from old have "map_option (\<lambda>d. (status d, traffic_percentage d)) (map_of (deployments after_v2) ''gpt-v1-green-1'') =
     Some (INACTIVE, 0)"
    by (cases "map_of (deployments after_v2) ''gpt-v1-green-1''") simp_all
  with k one show ?thesis by simp
qed


text \<open>
  Claim C8 fails on the code. After four successful deployments the opposite slot
  holds two inactive deployments, created at times 1 and 3. The rollback takes the
  first in registry order, the one created at time 1, and not the most recent one.
\<close>

theorem rollback_picks_oldest:
  "map (\<lambda>(k, d). (k, slot d, status d, created_at d)) (deployments after_v4) =
     [(''gpt-v1-green-1'', GREEN, INACTIVE, 1), (''gpt-v2-blue-2'', BLUE, INACTIVE, 2),
      (''gpt-v3-green-3'', GREEN, INACTIVE, 3), (''gpt-v4-blue-4'', BLUE, ACTIVE, 4)] \<and>
   active_slots after_v4 ''gpt'' = Some BLUE \<and>
   (case rollback_deployment after_v4 ''gpt'' of
      (r, bg) \<Rightarrow> (r, registry_view bg, active_slots bg ''gpt'', routing_rules (bg_router bg) ''gpt'')) =
     (Rolled_back ''gpt-v1-green-1'' ''green'',
      [(''gpt-v1-green-1'', GREEN, ACTIVE, 100), (''gpt-v2-blue-2'', BLUE, INACTIVE, 0),
       (''gpt-v3-green-3'', GREEN, INACTIVE, 0), (''gpt-v4-blue-4'', BLUE, INACTIVE, 0)],
      Some GREEN, Some [(''green'', 100), (''blue'', 0)])"
  by (intro conjI) code_simp+

text \<open>
  Claim C9. Every run of \<^verbatim>\<open>validate_deployment\<close> returns a report with the results of
  all four checks in their fixed order. A check whose observation raised an exception
  has a failed result at its place, and the checks after it are still there. The report
  does not pass exactly when some check result is failed, and its errors are the
  messages of the failed results.
\<close>

theorem validate_deployment_isolates_checks:
  "\<exists>vr d'. validate_deployment pr d = (vr, d') \<and>
     map check_name (checks vr) =
       [''endpoint_connectivity'', ''model_response_validation'', ''performance_validation'',
        ''api_compatibility''] \<and>
     (isl (observed_health pr) \<longrightarrow> \<not> check_passed (checks vr ! 0)) \<and>
     ((\<exists>input \<in> set test_inputs. isl (model_reply pr input)) \<longrightarrow> \<not> check_passed (checks vr ! 1)) \<and>
     (isl (measured_times pr) \<longrightarrow> \<not> check_passed (checks vr ! 2)) \<and>
     (isl (compatibility_score pr) \<longrightarrow> \<not> check_passed (checks vr ! 3)) \<and>
     (\<not> passed vr \<longleftrightarrow> (\<exists>c \<in> set (checks vr). \<not> check_passed c)) \<and>
     errors vr = map check_message (filter (\<lambda>c. \<not> check_passed c) (checks vr))"
proof -
  from validate_deployment_shape[of pr d] obtain c1 c2 c3 c4 vr d' where
    s: "validate_deployment pr d = (vr, d')" "checks vr = [c1, c2, c3, c4]"
       "check_name c1 = ''endpoint_connectivity''" "check_name c2 = ''model_response_validation''"
       "check_name c3 = ''performance_validation''" "check_name c4 = ''api_compatibility''"
       "isl (observed_health pr) \<longrightarrow> \<not> check_passed c1"
       "(\<exists>input \<in> set test_inputs. isl (model_reply pr input)) \<longrightarrow> \<not> check_passed c2"
       "isl (measured_times pr) \<longrightarrow> \<not> check_passed c3"
       "isl (compatibility_score pr) \<longrightarrow> \<not> check_passed c4"
       "report_consistent vr"
    by blast
  from s(11) have p: "\<not> passed vr \<longleftrightarrow> (\<exists>c \<in> set (checks vr). \<not> check_passed c)"
    and e: "errors vr = map check_message (filter (\<lambda>c. \<not> check_passed c) (checks vr))"
    by (auto simp: report_consistent_def list_all_iff)
  show ?thesis
    apply (rule exI[of _ vr], rule exI[of _ d'])
    using s(1-10) p e by simp
qed

theorem validate_deployment_isolates_checks_witness:
  "isl (measured_times timeout_probe) \<and>
   (\<exists>vr d'. validate_deployment timeout_probe staged = (vr, d') \<and> length (checks vr) = 4 \<and>
      \<not> check_passed (checks vr ! 2) \<and> \<not> passed vr)"
proof -
  have i: "isl (measured_times timeout_probe)" by (simp add: timeout_probe_def)
  from validate_deployment_isolates_checks[of timeout_probe staged] obtain vr d' where
    s: "validate_deployment timeout_probe staged = (vr, d')"
       "map check_name (checks vr) =
          [''endpoint_connectivity'', ''model_response_validation'', ''performance_validation'',
           ''api_compatibility'']"
       "isl (measured_times timeout_probe) \<longrightarrow> \<not> check_passed (checks vr ! 2)"
       "\<not> passed vr \<longleftrightarrow> (\<exists>c \<in> set (checks vr). \<not> check_passed c)"
    by (elim exE conjE) (rule that)
  from s(2) have len: "length (checks vr) = 4"
    using length_map[of check_name "checks vr"] by simp
  from s(3) i have f: "\<not> check_passed (checks vr ! 2)" by simp
  have "checks vr ! 2 \<in> set (checks vr)" using len by simp
  with f s(4) have "\<not> passed vr" by blast
  with i s(1) len f show ?thesis by blast
qed

text \<open>The parts of the rollback that do not depend on which deployment is found.\<close>

lemma rollback_failure_unchanged:
  "fst (rollback_deployment bg m) = No_active_deployment \<or> fst (rollback_deployment bg m) = No_previous_deployment
   \<Longrightarrow> snd (rollback_deployment bg m) = bg"
  by (auto simp: rollback_deployment_def Let_def split: option.splits prod.splits)

lemma rollback_success_effect:
  assumes "rollback_deployment bg m = (Rolled_back rid sl, bg')"
  shows "\<exists>cur. active_slots bg m = Some cur \<and> sl = slot_value (get_opposite_slot cur) \<and>
           active_slots bg' m = Some (get_opposite_slot cur) \<and>
           routing_rules (bg_router bg') m = Some [(slot_value (get_opposite_slot cur), 100), (slot_value cur, 0)]"
  using assms
  by (auto simp: rollback_deployment_def Let_def update_traffic_split_def split: option.splits prod.splits)

text \<open>A validation that fails moves no traffic.\<close>

lemma validation_failure_keeps_router:
  "deploy_new_version env bg m v = (Validation_failed vr, bg') \<Longrightarrow> bg_router bg' = bg_router bg"
  by (auto simp: deploy_new_version_def Let_def set_status_def split: option.splits prod.splits if_splits)

text \<open>With the live metrics as the source simulates them, every step of the shift is healthy.\<close>

lemma simulated_shift_succeeds:
  "snd (gradual_traffic_shift simulated_health tr m s steps) = None"
  by (induction steps arbitrary: tr) (simp_all add: Let_def monitor_traffic_shift_def simulated_health_def)

end
